theory Spec2Isabelle
  imports Main "HOL-Library.Multiset"
begin

section \<open>Data model (Tarea2/models.py, Tarea2/exceptions.py)\<close>

text \<open>
  The flight queue of \<^verbatim>\<open>Tarea2/models.py\<close>: a doubly linked list of \<^verbatim>\<open>Nodo\<close> objects
  over \<^verbatim>\<open>Vuelo\<close> rows, whose order is also written into the rows' \<^verbatim>\<open>anterior_id\<close> and
  \<^verbatim>\<open>siguiente_id\<close> columns.

  Python references are made explicit. A \<^verbatim>\<open>Vuelo\<close> object is its row in the session's
  table and a reference to it is its primary key; a \<^verbatim>\<open>Nodo\<close> object lives in a heap of
  nodes and a reference to it is its address. Python's \<^verbatim>\<open>None\<close> is \<open>None\<close>.
\<close>

datatype EstadoVuelo = PROGRAMADO | EMERGENCIA | RETRASADO

fun estado_value :: "EstadoVuelo \<Rightarrow> string" where
  "estado_value PROGRAMADO = ''programado''"
| "estado_value EMERGENCIA = ''emergencia''"
| "estado_value RETRASADO = ''retrasado''"

text \<open>The columns of table \<^verbatim>\<open>vuelos\<close>; \<^verbatim>\<open>hora\<close> is a timestamp.\<close>

record Vuelo =
  id_vuelo :: int
  codigo :: string
  estado :: string
  hora :: int
  origen :: string
  destino :: string
  posicion :: "int option"
  anterior_id :: "int option"
  siguiente_id :: "int option"

text \<open>\<^verbatim>\<open>class Nodo\<close>: the wrapped flight (by primary key) and the two node references.\<close>

record Nodo =
  vuelo :: int
  anterior :: "nat option"
  siguiente :: "nat option"

text \<open>
  The SQLAlchemy session as far as the queue uses it: the rows of the table in scan
  order (what \<^verbatim>\<open>query(Vuelo).all()\<close> returns) and the outcomes of the commits still to
  come (\<open>True\<close>: that commit raises). An empty schedule means every commit succeeds.
\<close>

record Session =
  rows :: "Vuelo list"
  fallos :: "bool list"

text \<open>
  \<^verbatim>\<open>class ListaVuelos\<close>: \<^verbatim>\<open>cabeza\<close>, \<^verbatim>\<open>cola\<close>, \<^verbatim>\<open>size\<close>, \<^verbatim>\<open>session\<close>, and the heap of
  \<^verbatim>\<open>Nodo\<close> objects (\<open>nodos\<close>, with \<open>libre\<close> the address the next \<^verbatim>\<open>Nodo(...)\<close> gets).
\<close>

record ListaVuelos =
  cabeza :: "nat option"
  cola :: "nat option"
  size_lista :: int
  session :: Session
  nodos :: "nat \<Rightarrow> Nodo"
  libre :: nat

text \<open>
  Exceptions. The three \<^verbatim>\<open>ValueError\<close>s of the source differ in their message only;
  \<^verbatim>\<open>AttributeError\<close> is what Python raises on \<^verbatim>\<open>None.siguiente\<close>; \<^verbatim>\<open>OwnEmpty\<close> is declared
  in \<^verbatim>\<open>exceptions.py\<close>; \<^verbatim>\<open>HTTPException\<close> is raised by \<^verbatim>\<open>main.py\<close>.
\<close>

datatype mensaje =
    Fuera_de_rango int int
  | Cantidad_no_coincide
  | Ids_no_existen

datatype error =
    ValueError mensaje
  | AttributeError
  | OwnEmpty
  | HTTPException nat

section \<open>Node heap\<close>

definition Nodo_nuevo :: "ListaVuelos \<Rightarrow> int \<Rightarrow> nat \<times> ListaVuelos" where
  "Nodo_nuevo l v =
     (libre l,
      l\<lparr>nodos := (nodos l)(libre l := \<lparr>vuelo = v, anterior = None, siguiente = None\<rparr>),
        libre := Suc (libre l)\<rparr>)"

definition set_anterior :: "nat \<Rightarrow> nat option \<Rightarrow> ListaVuelos \<Rightarrow> ListaVuelos" where
  "set_anterior a x l = l\<lparr>nodos := (nodos l)(a := (nodos l a)\<lparr>anterior := x\<rparr>)\<rparr>"

definition set_siguiente :: "nat \<Rightarrow> nat option \<Rightarrow> ListaVuelos \<Rightarrow> ListaVuelos" where
  "set_siguiente a x l = l\<lparr>nodos := (nodos l)(a := (nodos l a)\<lparr>siguiente := x\<rparr>)\<rparr>"

section \<open>Persistence: \<^verbatim>\<open>_actualizar_bd\<close>\<close>

text \<open>
  The two assignments of \<^verbatim>\<open>_actualizar_bd\<close>: a field is written only when the argument
  \<^verbatim>\<open>is not None\<close>.
\<close>

definition asignar :: "int option \<Rightarrow> int option \<Rightarrow> Vuelo \<Rightarrow> Vuelo" where
  "asignar a s r =
     r\<lparr>anterior_id := (case a of None \<Rightarrow> anterior_id r | Some x \<Rightarrow> Some x),
       siguiente_id := (case s of None \<Rightarrow> siguiente_id r | Some x \<Rightarrow> Some x)\<rparr>"

text \<open>
  \<^verbatim>\<open>_actualizar_bd(vuelo, anterior_id, siguiente_id)\<close> on the session; the flight is
  given by its primary key and is a row of the table. When the commit raises, the
  \<^verbatim>\<open>except\<close> branch rolls back (the row keeps its stored fields) and the result is
  \<^verbatim>\<open>False\<close>; otherwise the row is stored and the result is \<^verbatim>\<open>True\<close>.
\<close>

definition actualizar_bd :: "Session \<Rightarrow> int \<Rightarrow> int option \<Rightarrow> int option \<Rightarrow> bool \<times> Session" where
  "actualizar_bd s v a n =
     (case fallos s of
        True # fs \<Rightarrow> (False, s\<lparr>fallos := fs\<rparr>)
      | _ \<Rightarrow> (True, s\<lparr>rows := map (\<lambda>r. if id_vuelo r = v then asignar a n r else r) (rows s),
                     fallos := tl (fallos s)\<rparr>))"

text \<open>The call as every method of \<^verbatim>\<open>ListaVuelos\<close> makes it: the result is dropped.\<close>

definition bd :: "int \<Rightarrow> int option \<Rightarrow> int option \<Rightarrow> ListaVuelos \<Rightarrow> ListaVuelos" where
  "bd v a n l = l\<lparr>session := snd (actualizar_bd (session l) v a n)\<rparr>"

section \<open>Queue operations\<close>

definition insertar_al_frente :: "ListaVuelos \<Rightarrow> int \<Rightarrow> int \<times> ListaVuelos" where
  "insertar_al_frente l v =
     (let (nn, l1) = Nodo_nuevo l v in
      case cabeza l1 of
        None \<Rightarrow>
          (let l2 = l1\<lparr>cabeza := Some nn, cola := Some nn\<rparr>;
               l3 = bd v None None l2
           in (v, l3\<lparr>size_lista := size_lista l3 + 1\<rparr>))
      | Some c \<Rightarrow>
          (let l2 = set_siguiente nn (Some c) l1;
               l3 = set_anterior c (Some nn) l2;
               l4 = bd v None (Some (vuelo (nodos l3 c))) l3;
               l5 = bd (vuelo (nodos l4 c)) (Some v) None l4;
               l6 = l5\<lparr>cabeza := Some nn\<rparr>
           in (v, l6\<lparr>size_lista := size_lista l6 + 1\<rparr>)))"

definition insertar_al_final :: "ListaVuelos \<Rightarrow> int \<Rightarrow> int \<times> ListaVuelos" where
  "insertar_al_final l v =
     (let (nn, l1) = Nodo_nuevo l v in
      case cola l1 of
        None \<Rightarrow>
          (let l2 = l1\<lparr>cabeza := Some nn, cola := Some nn\<rparr>;
               l3 = bd v None None l2
           in (v, l3\<lparr>size_lista := size_lista l3 + 1\<rparr>))
      | Some c \<Rightarrow>
          (let l2 = set_anterior nn (Some c) l1;
               l3 = set_siguiente c (Some nn) l2;
               l4 = bd v (Some (vuelo (nodos l3 c))) None l3;
               l5 = bd (vuelo (nodos l4 c)) None (Some v) l4;
               l6 = l5\<lparr>cola := Some nn\<rparr>
           in (v, l6\<lparr>size_lista := size_lista l6 + 1\<rparr>)))"

text \<open>
  \<^verbatim>\<open>obtener_primero\<close>, \<^verbatim>\<open>obtener_ultimo\<close>, \<^verbatim>\<open>longitud\<close> read the state and assign nothing.
  The result of the first two is \<open>Inr\<close> of the returned value (\<open>None\<close> is Python's
  \<^verbatim>\<open>None\<close>): none of them has a \<^verbatim>\<open>raise\<close>.
\<close>

definition obtener_primero :: "ListaVuelos \<Rightarrow> error + int option" where
  "obtener_primero l =
     (case cabeza l of None \<Rightarrow> Inr None | Some c \<Rightarrow> Inr (Some (vuelo (nodos l c))))"

definition obtener_ultimo :: "ListaVuelos \<Rightarrow> error + int option" where
  "obtener_ultimo l =
     (case cola l of None \<Rightarrow> Inr None | Some c \<Rightarrow> Inr (Some (vuelo (nodos l c))))"

definition longitud :: "ListaVuelos \<Rightarrow> int" where
  "longitud l = size_lista l"

text \<open>
  \<^verbatim>\<open>for _ in range(n): actual = actual.siguiente\<close>; \<^verbatim>\<open>None.siguiente\<close> raises.
\<close>

fun avanzar :: "(nat \<Rightarrow> Nodo) \<Rightarrow> nat \<Rightarrow> nat option \<Rightarrow> error + nat option" where
  "avanzar h 0 p = Inr p"
| "avanzar h (Suc n) p =
     (case p of None \<Rightarrow> Inl AttributeError | Some a \<Rightarrow> avanzar h n (siguiente (h a)))"

text \<open>
  Methods that can raise return the outcome together with the state at that moment, so
  that what a raising call has already changed is visible.
\<close>

definition insertar_en_posicion ::
  "ListaVuelos \<Rightarrow> int \<Rightarrow> int \<Rightarrow> (error + int) \<times> ListaVuelos" where
  "insertar_en_posicion l v pos =
     (if pos < 0 \<or> pos > size_lista l then
        (Inl (ValueError (Fuera_de_rango pos (size_lista l))), l)
      else if pos = 0 then
        (let (r, l') = insertar_al_frente l v in (Inr r, l'))
      else if pos = size_lista l then
        (let (r, l') = insertar_al_final l v in (Inr r, l'))
      else
        (let (nn, l1) = Nodo_nuevo l v in
         case avanzar (nodos l1) (nat pos) (cabeza l1) of
           Inl e \<Rightarrow> (Inl e, l1)
         | Inr None \<Rightarrow> (Inl AttributeError, l1)
         | Inr (Some a) \<Rightarrow>
             (let l2 = set_anterior nn (anterior (nodos l1 a)) l1;
                  l3 = set_siguiente nn (Some a) l2
              in case anterior (nodos l3 a) of
                   None \<Rightarrow> (Inl AttributeError, l3)
                 | Some b \<Rightarrow>
                     (let l4 = bd v (Some (vuelo (nodos l3 b))) (Some (vuelo (nodos l3 a))) l3;
                          l5 = bd (vuelo (nodos l4 b)) None (Some v) l4;
                          l6 = bd (vuelo (nodos l5 a)) (Some v) None l5;
                          l7 = set_siguiente b (Some nn) l6;
                          l8 = set_anterior a (Some nn) l7
                      in (Inr v, l8\<lparr>size_lista := size_lista l8 + 1\<rparr>)))))"

definition extraer_de_posicion :: "ListaVuelos \<Rightarrow> int \<Rightarrow> (error + int) \<times> ListaVuelos" where
  "extraer_de_posicion l pos =
     (if pos < 0 \<or> pos \<ge> size_lista l then
        (Inl (ValueError (Fuera_de_rango pos (size_lista l - 1))), l)
      else if pos = 0 then
        (case cabeza l of
           None \<Rightarrow> (Inl AttributeError, l)
         | Some ex \<Rightarrow>
             (let ve = vuelo (nodos l ex);
                  l1 = l\<lparr>cabeza := siguiente (nodos l ex)\<rparr>;
                  l2 = (case cabeza l1 of
                          Some c \<Rightarrow> bd (vuelo (nodos l1 c)) None None (set_anterior c None l1)
                        | None \<Rightarrow> l1\<lparr>cola := None\<rparr>);
                  l3 = bd ve None None l2
              in (Inr ve, l3\<lparr>size_lista := size_lista l3 - 1\<rparr>)))
      else if pos = size_lista l - 1 then
        (case cola l of
           None \<Rightarrow> (Inl AttributeError, l)
         | Some ex \<Rightarrow>
             (let ve = vuelo (nodos l ex);
                  l1 = l\<lparr>cola := anterior (nodos l ex)\<rparr>;
                  l2 = (case cola l1 of
                          Some c \<Rightarrow> bd (vuelo (nodos l1 c)) None None (set_siguiente c None l1)
                        | None \<Rightarrow> l1\<lparr>cabeza := None\<rparr>);
                  l3 = bd ve None None l2
              in (Inr ve, l3\<lparr>size_lista := size_lista l3 - 1\<rparr>)))
      else
        (case avanzar (nodos l) (nat pos) (cabeza l) of
           Inl e \<Rightarrow> (Inl e, l)
         | Inr None \<Rightarrow> (Inl AttributeError, l)
         | Inr (Some a) \<Rightarrow>
             (let ve = vuelo (nodos l a) in
              case anterior (nodos l a) of
                None \<Rightarrow> (Inl AttributeError, l)
              | Some b \<Rightarrow>
                  (let l1 = set_siguiente b (siguiente (nodos l a)) l in
                   case siguiente (nodos l1 a) of
                     None \<Rightarrow> (Inl AttributeError, l1)
                   | Some c \<Rightarrow>
                       (let l2 = set_anterior c (anterior (nodos l1 a)) l1;
                            l3 = bd (vuelo (nodos l2 b)) None (Some (vuelo (nodos l2 c))) l2;
                            l4 = bd (vuelo (nodos l3 c)) (Some (vuelo (nodos l3 b))) None l3;
                            l5 = bd ve None None l4
                        in (Inr ve, l5\<lparr>size_lista := size_lista l5 - 1\<rparr>))))))"

text \<open>
  \<^verbatim>\<open>listar_todos\<close>: the \<^verbatim>\<open>while nodo_actual\<close> loop with its accumulator. On a cyclic
  chain the loop does not end: the result is \<open>None\<close>.
\<close>

partial_function (option) listar_desde ::
  "(nat \<Rightarrow> Nodo) \<Rightarrow> nat option \<Rightarrow> int list \<Rightarrow> int list option" where
  "listar_desde h p vuelos =
     (case p of
        None \<Rightarrow> Some vuelos
      | Some a \<Rightarrow> listar_desde h (siguiente (h a)) (vuelos @ [vuelo (h a)]))"

declare listar_desde.simps [code]

definition listar_todos :: "ListaVuelos \<Rightarrow> int list option" where
  "listar_todos l = listar_desde (nodos l) (cabeza l) []"

text \<open>
  \<^verbatim>\<open>reordenar\<close>. The dictionary \<^verbatim>\<open>vuelos\<close> maps each id in the chain to its flight, here
  the id itself.
\<close>

partial_function (option) diccionario_desde ::
  "(nat \<Rightarrow> Nodo) \<Rightarrow> nat option \<Rightarrow> (int \<rightharpoonup> int) \<Rightarrow> (int \<rightharpoonup> int) option" where
  "diccionario_desde h p d =
     (case p of
        None \<Rightarrow> Some d
      | Some a \<Rightarrow> diccionario_desde h (siguiente (h a)) (d(vuelo (h a) \<mapsto> vuelo (h a))))"

declare diccionario_desde.simps [code]

fun insertar_todos :: "(int \<rightharpoonup> int) \<Rightarrow> int list \<Rightarrow> ListaVuelos \<Rightarrow> ListaVuelos" where
  "insertar_todos d [] l = l"
| "insertar_todos d (i # ids) l = insertar_todos d ids (snd (insertar_al_final l (the (d i))))"

definition reordenar ::
  "ListaVuelos \<Rightarrow> int list \<Rightarrow> ((error + int list) \<times> ListaVuelos) option" where
  "reordenar l orden_ids =
     (if int (length orden_ids) \<noteq> size_lista l then
        Some (Inl (ValueError Cantidad_no_coincide), l)
      else
        case diccionario_desde (nodos l) (cabeza l) Map.empty of
          None \<Rightarrow> None
        | Some d \<Rightarrow>
            if \<not> list_all (\<lambda>i. d i \<noteq> None) orden_ids then
              Some (Inl (ValueError Ids_no_existen), l)
            else
              (let l1 = l\<lparr>cabeza := None, cola := None, size_lista := 0\<rparr>;
                   l2 = insertar_todos d orden_ids l1
               in case listar_todos l2 of
                    None \<Rightarrow> None
                  | Some vs \<Rightarrow> Some (Inr vs, l2)))"

section \<open>Reconstruction: \<^verbatim>\<open>_cargar_desde_bd\<close>\<close>

text \<open>
  The walk along \<^verbatim>\<open>siguiente_id\<close>; \<open>enlazar\<close> is the body of the loop: a new
  node for the next flight, linked behind \<^verbatim>\<open>nodo_actual\<close>, and \<^verbatim>\<open>size += 1\<close>.
  The loop has no exit but its condition: on cyclic links it does not end, and the
  result is \<open>None\<close>.
\<close>

definition enlazar :: "ListaVuelos \<Rightarrow> nat \<Rightarrow> Vuelo \<Rightarrow> nat \<times> ListaVuelos" where
  "enlazar l nodo_actual sv =
     (let (nn, l1) = Nodo_nuevo l (id_vuelo sv);
          l2 = set_anterior nn (Some nodo_actual) l1;
          l3 = set_siguiente nodo_actual (Some nn) l2
      in (nn, l3\<lparr>size_lista := size_lista l3 + 1\<rparr>))"

text \<open>
  The loop condition \<^verbatim>\<open>siguiente_id and siguiente_id in vuelos_dict\<close> (the id is truthy,
  neither \<^verbatim>\<open>None\<close> nor 0, and a key of the dictionary), giving \<^verbatim>\<open>vuelos_dict[siguiente_id]\<close>
  when it holds.
\<close>

definition siguiente_valido :: "(int \<rightharpoonup> Vuelo) \<Rightarrow> int option \<Rightarrow> Vuelo option" where
  "siguiente_valido vuelos_dict sig =
     (case sig of None \<Rightarrow> None | Some i \<Rightarrow> if i = 0 then None else vuelos_dict i)"

partial_function (option) seguir ::
  "(int \<rightharpoonup> Vuelo) \<Rightarrow> ListaVuelos \<Rightarrow> nat \<Rightarrow> int option \<Rightarrow> ListaVuelos option" where
  "seguir vuelos_dict l nodo_actual sig =
     (case siguiente_valido vuelos_dict sig of
        None \<Rightarrow> Some (l\<lparr>cola := Some nodo_actual\<rparr>)
      | Some sv \<Rightarrow>
          seguir vuelos_dict (snd (enlazar l nodo_actual sv))
            (fst (enlazar l nodo_actual sv)) (siguiente_id sv))"

declare seguir.simps [code]

text \<open>
  \<^verbatim>\<open>{v.id: v for v in vuelos}\<close>: a later row with the same id replaces an earlier one.
\<close>

definition indice :: "Vuelo list \<Rightarrow> (int \<rightharpoonup> Vuelo)" where
  "indice vs = map_of (rev (map (\<lambda>v. (id_vuelo v, v)) vs))"

definition cargar_desde_bd :: "ListaVuelos \<Rightarrow> ListaVuelos option" where
  "cargar_desde_bd l =
     (case rows (session l) of
        [] \<Rightarrow> Some l
      | v0 # _ \<Rightarrow>
          (let vuelos = rows (session l);
               cab = (case find (\<lambda>v. anterior_id v = None) vuelos of
                        Some c \<Rightarrow> c | None \<Rightarrow> v0);
               (nn, l1) = Nodo_nuevo l (id_vuelo cab);
               l2 = l1\<lparr>cabeza := Some nn, size_lista := 1\<rparr>
           in seguir (indice vuelos) l2 nn (siguiente_id cab)))"

text \<open>
  \<^verbatim>\<open>ListaVuelos.__init__(session)\<close>. The scan \<^verbatim>\<open>query(Vuelo).all()\<close> is taken to succeed,
  so the \<^verbatim>\<open>except\<close> branch of \<^verbatim>\<open>_cargar_desde_bd\<close>, which empties the list, is not
  entered.
\<close>

definition nodo_vacio :: Nodo where
  "nodo_vacio = \<lparr>vuelo = 0, anterior = None, siguiente = None\<rparr>"

definition ListaVuelos_init :: "Session \<Rightarrow> ListaVuelos option" where
  "ListaVuelos_init s =
     cargar_desde_bd
       \<lparr>cabeza = None, cola = None, size_lista = 0, session = s,
        nodos = (\<lambda>_. nodo_vacio), libre = 0\<rparr>"

section \<open>Create and enqueue (Tarea2/main.py)\<close>

text \<open>The request body \<^verbatim>\<open>VueloBase\<close>.\<close>

record VueloBase =
  b_codigo :: string
  b_estado :: EstadoVuelo
  b_hora :: int
  b_origen :: string
  b_destino :: string

text \<open>
  \<^verbatim>\<open>db.add(nuevo_vuelo); db.commit(); db.refresh(nuevo_vuelo)\<close>: the row is appended with
  the next primary key (one more than the largest in the table) and empty link columns.
  The commit raises when the schedule says so or when \<^verbatim>\<open>codigo\<close>, declared
  \<^verbatim>\<open>unique=True\<close>, is taken; \<open>None\<close> stands for that. The request's session and
  the queue's session are one database: one table here.
\<close>

definition crear_vuelo :: "Session \<Rightarrow> VueloBase \<Rightarrow> int option \<times> Session" where
  "crear_vuelo s d =
     (case fallos s of
        True # fs \<Rightarrow> (None, s\<lparr>fallos := fs\<rparr>)
      | _ \<Rightarrow>
          if b_codigo d \<in> set (map codigo (rows s)) then (None, s\<lparr>fallos := tl (fallos s)\<rparr>)
          else
            (let i = fold max (map id_vuelo (rows s)) 0 + 1 in
             (Some i,
              s\<lparr>rows := rows s @
                   [\<lparr>id_vuelo = i, codigo = b_codigo d, estado = estado_value (b_estado d),
                     hora = b_hora d, origen = b_origen d, destino = b_destino d,
                     posicion = None, anterior_id = None, siguiente_id = None\<rparr>],
                 fallos := tl (fallos s)\<rparr>)))"

text \<open>
  \<^verbatim>\<open>agregar_vuelo\<close>: any exception becomes \<^verbatim>\<open>HTTPException(status_code=500)\<close>; otherwise
  the new flight goes to the front when its state is \<^verbatim>\<open>EMERGENCIA\<close> and to the back if not.
\<close>

definition agregar_vuelo :: "ListaVuelos \<Rightarrow> VueloBase \<Rightarrow> (error + int) \<times> ListaVuelos" where
  "agregar_vuelo l d =
     (case crear_vuelo (session l) d of
        (None, s') \<Rightarrow> (Inl (HTTPException 500), l\<lparr>session := s'\<rparr>)
      | (Some v, s') \<Rightarrow>
          if b_estado d = EMERGENCIA then
            (Inr v, snd (insertar_al_frente (l\<lparr>session := s'\<rparr>) v))
          else
            (Inr v, snd (insertar_al_final (l\<lparr>session := s'\<rparr>) v)))"

section \<open>Well-formed queues\<close>

text \<open>
  \<open>cadena h prev p as\<close>: following \<^verbatim>\<open>siguiente\<close> from \<open>p\<close> visits exactly the nodes
  \<open>as\<close> and ends in \<^verbatim>\<open>None\<close>, each node's \<^verbatim>\<open>anterior\<close> being the node before it.
  \<open>bien_formada l as\<close>: the in-memory state of \<open>l\<close> is the chain \<open>as\<close>: \<^verbatim>\<open>cabeza\<close> starts
  it, \<^verbatim>\<open>cola\<close> is its last node, \<^verbatim>\<open>size\<close> its length, and its nodes are distinct
  allocated objects.
\<close>

fun cadena :: "(nat \<Rightarrow> Nodo) \<Rightarrow> nat option \<Rightarrow> nat option \<Rightarrow> nat list \<Rightarrow> bool" where
  "cadena h prev p [] = (p = None)"
| "cadena h prev p (a # as) =
     (p = Some a \<and> anterior (h a) = prev \<and> cadena h (Some a) (siguiente (h a)) as)"

definition bien_formada :: "ListaVuelos \<Rightarrow> nat list \<Rightarrow> bool" where
  "bien_formada l as =
     (cadena (nodos l) None (cabeza l) as \<and> distinct as \<and>
      cola l = (if as = [] then None else Some (last as)) \<and>
      size_lista l = int (length as) \<and> list_all (\<lambda>a. a < libre l) as)"

text \<open>The flights wrapped by the nodes \<open>as\<close>, in that order.\<close>

definition vuelos_de :: "ListaVuelos \<Rightarrow> nat list \<Rightarrow> int list" where
  "vuelos_de l as = map (\<lambda>a. vuelo (nodos l a)) as"

text \<open>
  The in-memory part of the state: everything but the session.
\<close>

definition memoria :: "ListaVuelos \<Rightarrow> nat option \<times> nat option \<times> int \<times> (nat \<Rightarrow> Nodo) \<times> nat" where
  "memoria l = (cabeza l, cola l, size_lista l, nodos l, libre l)"

text \<open>The stored link columns of flight \<open>i\<close>, when the table has such a row.\<close>

definition enlaces :: "ListaVuelos \<Rightarrow> int \<Rightarrow> (int option \<times> int option) option" where
  "enlaces l i =
     map_option (\<lambda>r. (anterior_id r, siguiente_id r))
       (find (\<lambda>r. id_vuelo r = i) (rows (session l)))"

section \<open>Sample data\<close>

definition programado :: "string \<Rightarrow> VueloBase" where
  "programado c = \<lparr>b_codigo = c, b_estado = PROGRAMADO, b_hora = 0,
                    b_origen = ''BOG'', b_destino = ''MDE''\<rparr>"

definition emergencia :: "string \<Rightarrow> VueloBase" where
  "emergencia c = \<lparr>b_codigo = c, b_estado = EMERGENCIA, b_hora = 0,
                    b_origen = ''BOG'', b_destino = ''MDE''\<rparr>"

text \<open>The queue of a fresh application on an empty table.\<close>

definition lista_vacia :: ListaVuelos where
  "lista_vacia =
     \<lparr>cabeza = None, cola = None, size_lista = 0, session = \<lparr>rows = [], fallos = []\<rparr>,
      nodos = (\<lambda>_. nodo_vacio), libre = 0\<rparr>"

text \<open>The queues after enqueueing two and three scheduled flights (ids 1, 2, 3).\<close>

definition lista_AB :: ListaVuelos where
  "lista_AB = snd (agregar_vuelo (snd (agregar_vuelo lista_vacia (programado ''A''))) (programado ''B''))"

definition lista_ABC :: ListaVuelos where
  "lista_ABC = snd (agregar_vuelo lista_AB (programado ''C''))"

text \<open>The queue after enqueueing one scheduled flight (id 1).\<close>

definition lista_A :: ListaVuelos where
  "lista_A = snd (agregar_vuelo lista_vacia (programado ''A''))"

text \<open>The same queue with another schedule of commit outcomes.\<close>

definition con_fallos :: "bool list \<Rightarrow> ListaVuelos \<Rightarrow> ListaVuelos" where
  "con_fallos fs l = l\<lparr>session := (session l)\<lparr>fallos := fs\<rparr>\<rparr>"

text \<open>
  The table after \<^verbatim>\<open>reordenar([2, 1])\<close> on the queue of flights 1, 2: each row points at
  the other in both columns.
\<close>

definition filas_ciclo :: "Vuelo list" where
  "filas_ciclo =
     [\<lparr>id_vuelo = 1, codigo = ''A'', estado = ''programado'', hora = 0, origen = ''BOG'',
       destino = ''MDE'', posicion = None, anterior_id = Some 2, siguiente_id = Some 2\<rparr>,
      \<lparr>id_vuelo = 2, codigo = ''B'', estado = ''programado'', hora = 0, origen = ''BOG'',
       destino = ''MDE'', posicion = None, anterior_id = Some 1, siguiente_id = Some 1\<rparr>]"

text \<open>
  The queue that \<^verbatim>\<open>reordenar([1, 1, 2])\<close> leaves on the queue of flights 1, 2, 3: three
  nodes, flight 1 in two of them.
\<close>

definition lista_112 :: ListaVuelos where
  "lista_112 = (case reordenar lista_ABC [1, 1, 2] of Some (r, l') \<Rightarrow> l' | None \<Rightarrow> lista_ABC)"

text \<open>The number of commits that raise before the first one that succeeds.\<close>

definition fallos_seguidos :: "Session \<Rightarrow> nat" where
  "fallos_seguidos s = length (takeWhile (\<lambda>b. b) (fallos s))"

section \<open>Chains and the loops over them\<close>

lemma bd_campos [simp]:
  "cabeza (bd v a n l) = cabeza l" "cola (bd v a n l) = cola l"
  "size_lista (bd v a n l) = size_lista l" "nodos (bd v a n l) = nodos l"
  "libre (bd v a n l) = libre l"
  by (simp_all add: bd_def)

lemma listar_desde_cadena:
  "cadena h prev p as \<Longrightarrow> listar_desde h p acc = Some (acc @ map (\<lambda>a. vuelo (h a)) as)"
proof (induction as arbitrary: prev p acc)
  case Nil
  then show ?case by (subst listar_desde.simps) simp
next
  case (Cons a as)
  from Cons.prems have p: "p = Some a" and rest: "cadena h (Some a) (siguiente (h a)) as"
    by simp_all
  show ?case
    by (subst listar_desde.simps) (simp add: p Cons.IH [OF rest])
qed

lemma listar_todos_bien_formada:
  "bien_formada l as \<Longrightarrow> listar_todos l = Some (vuelos_de l as)"
  using listar_desde_cadena [of "nodos l" None "cabeza l" as "[]"]
  by (simp add: bien_formada_def listar_todos_def vuelos_de_def)

lemma diccionario_desde_cadena:
  "cadena h prev p as \<Longrightarrow>
   diccionario_desde h p d = Some (fold (\<lambda>a m. m(vuelo (h a) \<mapsto> vuelo (h a))) as d)"
proof (induction as arbitrary: prev p d)
  case Nil
  then show ?case by (subst diccionario_desde.simps) simp
next
  case (Cons a as)
  from Cons.prems have p: "p = Some a" and rest: "cadena h (Some a) (siguiente (h a)) as"
    by simp_all
  show ?case
    by (subst diccionario_desde.simps)
      (simp only: p option.simps Cons.IH [OF rest] fold.simps o_apply)
qed

lemma fold_diccionario:
  "fold (\<lambda>a m. m(vuelo (h a) \<mapsto> vuelo (h a))) as d i =
     (if i \<in> set (map (\<lambda>a. vuelo (h a)) as) then Some i else d i)"
  by (induction as arbitrary: d) auto

lemma cadena_cong:
  "\<forall>a\<in>set as. h' a = h a \<Longrightarrow> cadena h' prev p as = cadena h prev p as"
  by (induction as arbitrary: prev p) auto

lemma butlast_distinto_last: "distinct as \<Longrightarrow> a \<in> set (butlast as) \<Longrightarrow> a \<noteq> last as"
  by (induction as) (auto split: if_splits dest: in_set_butlastD)

lemma cadena_snoc:
  "cadena h prev p as \<Longrightarrow> as \<noteq> [] \<Longrightarrow> distinct as \<Longrightarrow> nn \<notin> set as \<Longrightarrow>
   \<forall>a\<in>set (butlast as). h' a = h a \<Longrightarrow>
   h' (last as) = (h (last as))\<lparr>siguiente := Some nn\<rparr> \<Longrightarrow>
   anterior (h' nn) = Some (last as) \<Longrightarrow> siguiente (h' nn) = None \<Longrightarrow>
   cadena h' prev p (as @ [nn])"
proof (induction as arbitrary: prev p)
  case Nil
  then show ?case by simp
next
  case (Cons a as)
  show ?case
  proof (cases "as = []")
    case True
    with Cons.prems show ?thesis by simp
  next
    case False
    with Cons.prems have ha: "h' a = h a" by simp
    from False Cons.prems have "cadena h' (Some a) (siguiente (h a)) (as @ [nn])"
      by (intro Cons.IH) auto
    with Cons.prems ha show ?thesis by simp
  qed
qed

lemma bien_formada_insertar_al_final:
  assumes "bien_formada l as"
  shows "bien_formada (snd (insertar_al_final l v)) (as @ [libre l])"
    and "vuelos_de (snd (insertar_al_final l v)) (as @ [libre l]) = vuelos_de l as @ [v]"
    and "libre (snd (insertar_al_final l v)) = Suc (libre l)"
proof -
  let ?l' = "snd (insertar_al_final l v)"
  from assms have fresh: "libre l \<notin> set as" and dist: "distinct as"
    by (auto simp: bien_formada_def list_all_iff)
  show 3: "libre ?l' = Suc (libre l)"
    by (simp add: insertar_al_final_def Nodo_nuevo_def set_anterior_def set_siguiente_def
        Let_def split: option.split)
  show "bien_formada ?l' (as @ [libre l])"
  proof (cases "as = []")
    case True
    with assms show ?thesis
      by (simp add: bien_formada_def insertar_al_final_def Nodo_nuevo_def Let_def)
  next
    case False
    with assms have c: "cola l = Some (last as)" by (simp add: bien_formada_def)
    have nl: "last as \<noteq> libre l" using False fresh last_in_set by metis
    have campos: "cabeza ?l' = cabeza l" "cola ?l' = Some (libre l)"
      "size_lista ?l' = size_lista l + 1"
      "nodos ?l' = (nodos l)(libre l := \<lparr>vuelo = v, anterior = Some (last as), siguiente = None\<rparr>,
         last as := (nodos l (last as))\<lparr>siguiente := Some (libre l)\<rparr>)"
      using nl by (simp_all add: insertar_al_final_def Nodo_nuevo_def set_anterior_def
          set_siguiente_def Let_def c)
    have "cadena (nodos ?l') None (cabeza l) (as @ [libre l])"
    proof (rule cadena_snoc [where h = "nodos l"])
      show "cadena (nodos l) None (cabeza l) as" using assms by (simp add: bien_formada_def)
      show "\<forall>a\<in>set (butlast as). nodos ?l' a = nodos l a"
        using dist fresh by (auto simp: campos dest: in_set_butlastD butlast_distinto_last)
    qed (use False dist fresh nl in \<open>simp_all add: campos\<close>)
    with assms False fresh show ?thesis
      by (simp add: bien_formada_def campos 3 list_all_iff less_Suc_eq)
  qed
  show "vuelos_de ?l' (as @ [libre l]) = vuelos_de l as @ [v]"
  proof (cases "as = []")
    case True
    with assms show ?thesis
      by (simp add: vuelos_de_def bien_formada_def insertar_al_final_def Nodo_nuevo_def Let_def)
  next
    case False
    with assms have c: "cola l = Some (last as)" by (simp add: bien_formada_def)
    have nl: "last as \<noteq> libre l" using False fresh last_in_set by metis
    have "nodos ?l' = (nodos l)(libre l := \<lparr>vuelo = v, anterior = Some (last as), siguiente = None\<rparr>,
         last as := (nodos l (last as))\<lparr>siguiente := Some (libre l)\<rparr>)"
      using nl by (simp_all add: insertar_al_final_def Nodo_nuevo_def set_anterior_def
          set_siguiente_def Let_def c)
    with fresh nl show ?thesis by (auto simp: vuelos_de_def)
  qed
qed


lemma bien_formada_insertar_todos:
  "bien_formada l as \<Longrightarrow>
   bien_formada (insertar_todos d ids l) (as @ [libre l ..< libre l + length ids]) \<and>
   vuelos_de (insertar_todos d ids l) (as @ [libre l ..< libre l + length ids]) =
     vuelos_de l as @ map (\<lambda>i. the (d i)) ids"
proof (induction ids arbitrary: l as)
  case Nil
  then show ?case by simp
next
  case (Cons i ids)
  let ?l' = "snd (insertar_al_final l (the (d i)))"
  note paso = bien_formada_insertar_al_final [OF Cons.prems, of "the (d i)"]
  have rango: "[libre l ..< libre l + length (i # ids)] =
      libre l # [libre ?l' ..< libre ?l' + length ids]"
    using upt_conv_Cons [of "libre l" "libre l + Suc (length ids)"] by (simp add: paso(3))
  from Cons.IH [OF paso(1)] show ?case
    by (simp only: rango insertar_todos.simps paso(2) append_assoc append_Cons append_Nil
        list.map)
qed

lemma reordenar_ok:
  assumes bf: "bien_formada l as"
    and len: "length ids = length as"
    and sub: "set ids \<subseteq> set (vuelos_de l as)"
  shows "\<exists>l'. reordenar l ids = Some (Inr ids, l') \<and> listar_todos l' = Some ids \<and>
           bien_formada l' [libre l ..< libre l + length ids] \<and>
           vuelos_de l' [libre l ..< libre l + length ids] = ids"
proof -
  define d where "d = fold (\<lambda>a m. m(vuelo (nodos l a) \<mapsto> vuelo (nodos l a))) as Map.empty"
  define l1 where "l1 = l\<lparr>cabeza := None, cola := None, size_lista := 0\<rparr>"
  define l2 where "l2 = insertar_todos d ids l1"
  from bf have dic: "diccionario_desde (nodos l) (cabeza l) Map.empty = Some d"
    unfolding d_def bien_formada_def by (blast intro: diccionario_desde_cadena)
  have d_ids: "d i = Some i" if "i \<in> set ids" for i
    using that sub by (auto simp: d_def fold_diccionario vuelos_de_def)
  then have todos: "list_all (\<lambda>i. d i \<noteq> None) ids"
    by (simp add: list_all_iff)
  have ids_eq: "map (\<lambda>i. the (d i)) ids = ids"
    using d_ids by (simp add: map_idI)
  have "bien_formada l1 []"
    by (simp add: bien_formada_def l1_def)
  from bien_formada_insertar_todos [OF this, of d ids]
  have bf2: "bien_formada l2 [libre l ..< libre l + length ids]"
    and v2: "vuelos_de l2 [libre l ..< libre l + length ids] = ids"
    by (simp_all add: l2_def l1_def ids_eq vuelos_de_def)
  have lt: "listar_todos l2 = Some ids"
    using listar_todos_bien_formada [OF bf2] v2 by simp
  from bf len have tam: "int (length ids) = size_lista l"
    by (simp add: bien_formada_def)
  have "reordenar l ids = Some (Inr ids, l2)"
    using tam dic todos lt by (simp add: reordenar_def l2_def l1_def Let_def)
  with lt bf2 v2 show ?thesis by blast
qed


section \<open>Reordering\<close>

text \<open>
  Claim C5, as stated, fails on a queue that holds a flight twice. \<^verbatim>\<open>reordenar([1, 1, 2])\<close>
  on the queue of flights 1, 2, 3 returns normally and leaves three nodes holding 1, 1, 2.
  On that queue \<open>[2, 1]\<close> is a permutation of the set of ids, and \<^verbatim>\<open>reordenar([2, 1])\<close>
  raises \<^verbatim>\<open>ValueError\<close>: the number of ids is compared with \<^verbatim>\<open>size\<close>, the number of nodes.
\<close>

theorem C5_permutacion_del_conjunto_rechazada:
  "map_option fst (reordenar lista_ABC [1, 1, 2]) = Some (Inr [1, 1, 2]) \<and>
   bien_formada lista_112 [3, 4, 5] \<and> listar_todos lista_112 = Some [1, 1, 2] \<and>
   size_lista lista_112 = 3 \<and>
   distinct [2, 1 :: int] \<and> set [2, 1] = set (vuelos_de lista_112 [3, 4, 5]) \<and>
   reordenar lista_112 [2, 1] = Some (Inl (ValueError Cantidad_no_coincide), lista_112)"
proof -
  have a: "map_option fst (reordenar lista_ABC [1, 1, 2]) = Some (Inr [1, 1, 2])" by code_simp
  have b: "bien_formada lista_112 [3, 4, 5]" by code_simp
  have c: "listar_todos lista_112 = Some [1, 1, 2]" by code_simp
  have d: "size_lista lista_112 = 3" by code_simp
  have e: "set [2, 1] = set (vuelos_de lista_112 [3, 4, 5])" by code_simp
  have f: "reordenar lista_112 [2, 1] = Some (Inl (ValueError Cantidad_no_coincide), lista_112)"
    by (simp add: reordenar_def d)
  from a b c d e f show ?thesis by simp
qed

text \<open>
  Claim C5, amended. On a well-formed queue in which no flight is repeated, for every
  \<open>ids\<close> that is a permutation of the set of ids in the queue (and on any well-formed queue,
  for every \<open>ids\<close> that has the ids of the queue, each as often as the queue has it),
  \<^verbatim>\<open>reordenar(ids)\<close> returns normally, its result is \<open>ids\<close>, and \<^verbatim>\<open>listar_todos()\<close>
  afterwards is \<open>ids\<close>; and on every well-formed queue, reordering to the current order
  leaves \<^verbatim>\<open>listar_todos()\<close> as it was.
\<close>

theorem C5_reordenar_permutacion:
  assumes "bien_formada l as"
  shows "(distinct (vuelos_de l as) \<and> distinct ids \<and> set ids = set (vuelos_de l as) \<longrightarrow>
            (\<exists>l'. reordenar l ids = Some (Inr ids, l') \<and> listar_todos l' = Some ids)) \<and>
         (mset ids = mset (vuelos_de l as) \<longrightarrow>
            (\<exists>l'. reordenar l ids = Some (Inr ids, l') \<and> listar_todos l' = Some ids)) \<and>
         (\<exists>l'. reordenar l (vuelos_de l as) = Some (Inr (vuelos_de l as), l') \<and>
            listar_todos l' = listar_todos l)"
proof (intro conjI impI)
  assume p: "distinct (vuelos_de l as) \<and> distinct ids \<and> set ids = set (vuelos_de l as)"
  then have "length ids = length (vuelos_de l as)" by (metis distinct_card)
  then have len: "length ids = length as" by (simp add: vuelos_de_def)
  from p have "set ids \<subseteq> set (vuelos_de l as)" by simp
  from reordenar_ok [OF assms len this]
  show "\<exists>l'. reordenar l ids = Some (Inr ids, l') \<and> listar_todos l' = Some ids" by blast
next
  assume p: "mset ids = mset (vuelos_de l as)"
  then have "length ids = length (vuelos_de l as)" by (rule mset_eq_length)
  then have len: "length ids = length as" by (simp add: vuelos_de_def)
  have "set ids \<subseteq> set (vuelos_de l as)" using mset_eq_setD [OF p] by simp
  from reordenar_ok [OF assms len this]
  show "\<exists>l'. reordenar l ids = Some (Inr ids, l') \<and> listar_todos l' = Some ids" by blast
next
  have "length (vuelos_de l as) = length as" by (simp add: vuelos_de_def)
  from reordenar_ok [OF assms this] listar_todos_bien_formada [OF assms]
  show "\<exists>l'. reordenar l (vuelos_de l as) = Some (Inr (vuelos_de l as), l') \<and>
      listar_todos l' = listar_todos l"
    by auto
qed

theorem C5_reordenar_permutacion_witness:
  "bien_formada lista_ABC [0, 1, 2] \<and> distinct (vuelos_de lista_ABC [0, 1, 2]) \<and>
   distinct [3, 1, 2 :: int] \<and> set [3, 1, 2] = set (vuelos_de lista_ABC [0, 1, 2]) \<and>
   mset [3, 1, 2] = mset (vuelos_de lista_ABC [0, 1, 2]) \<and>
   (\<exists>l'. reordenar lista_ABC [3, 1, 2] = Some (Inr [3, 1, 2], l') \<and>
      listar_todos l' = Some [3, 1, 2]) \<and>
   (\<exists>l'. reordenar lista_ABC (vuelos_de lista_ABC [0, 1, 2]) =
        Some (Inr (vuelos_de lista_ABC [0, 1, 2]), l') \<and>
      listar_todos l' = listar_todos lista_ABC)"
proof -
  have a: "bien_formada lista_ABC [0, 1, 2]" by code_simp
  have v: "vuelos_de lista_ABC [0, 1, 2] = [1, 2, 3]" by code_simp
  have b: "distinct (vuelos_de lista_ABC [0, 1, 2]) \<and> distinct [3, 1, 2 :: int] \<and>
      set [3, 1, 2] = set (vuelos_de lista_ABC [0, 1, 2])"
    unfolding v by auto
  have c: "mset [3, 1, 2] = mset (vuelos_de lista_ABC [0, 1, 2])" unfolding v by simp
  from C5_reordenar_permutacion [OF a, of "[3, 1, 2]"] a b c show ?thesis by blast
qed

text \<open>
  Claim C10. \<^verbatim>\<open>reordenar\<close> checks the number of ids and that each is in the queue, not
  that they are a permutation: on a well-formed queue, any list of that length whose
  elements are ids in the queue is accepted, repeated ids included; the result and
  \<^verbatim>\<open>listar_todos()\<close> afterwards are that list, held by a chain of distinct nodes \<open>as'\<close>, so a
  repeated flight sits in several nodes.
\<close>

theorem C10_reordenar_acepta_duplicados:
  assumes "bien_formada l as" and "length ids = length as"
    and "set ids \<subseteq> set (vuelos_de l as)"
  shows "\<exists>l' as'. reordenar l ids = Some (Inr ids, l') \<and> listar_todos l' = Some ids \<and>
           bien_formada l' as' \<and> vuelos_de l' as' = ids"
  using reordenar_ok [OF assms] by blast

theorem C10_reordenar_acepta_duplicados_witness:
  "bien_formada lista_ABC [0, 1, 2] \<and> length [1, 1, 2 :: int] = length [0, 1, 2 :: nat] \<and>
   set [1, 1, 2] \<subseteq> set (vuelos_de lista_ABC [0, 1, 2]) \<and> \<not> distinct [1, 1, 2 :: int] \<and>
   (\<exists>l' as'. reordenar lista_ABC [1, 1, 2] = Some (Inr [1, 1, 2], l') \<and>
      listar_todos l' = Some [1, 1, 2] \<and> bien_formada l' as' \<and> vuelos_de l' as' = [1, 1, 2])"
proof -
  have a: "bien_formada lista_ABC [0, 1, 2]" by code_simp
  have b: "length [1, 1, 2 :: int] = length [0, 1, 2 :: nat]" by simp
  have c: "set [1, 1, 2] \<subseteq> set (vuelos_de lista_ABC [0, 1, 2])" by code_simp
  from C10_reordenar_acepta_duplicados [OF a b c] a b c show ?thesis by simp
qed

section \<open>The in-memory state does not depend on the session\<close>

lemma set_anterior_campos [simp]:
  "cabeza (set_anterior a x l) = cabeza l" "cola (set_anterior a x l) = cola l"
  "size_lista (set_anterior a x l) = size_lista l" "libre (set_anterior a x l) = libre l"
  "session (set_anterior a x l) = session l"
  "nodos (set_anterior a x l) = (nodos l)(a := (nodos l a)\<lparr>anterior := x\<rparr>)"
  by (simp_all add: set_anterior_def)

lemma set_siguiente_campos [simp]:
  "cabeza (set_siguiente a x l) = cabeza l" "cola (set_siguiente a x l) = cola l"
  "size_lista (set_siguiente a x l) = size_lista l" "libre (set_siguiente a x l) = libre l"
  "session (set_siguiente a x l) = session l"
  "nodos (set_siguiente a x l) = (nodos l)(a := (nodos l a)\<lparr>siguiente := x\<rparr>)"
  by (simp_all add: set_siguiente_def)

lemma Nodo_nuevo_campos [simp]:
  "fst (Nodo_nuevo l v) = libre l"
  "cabeza (snd (Nodo_nuevo l v)) = cabeza l" "cola (snd (Nodo_nuevo l v)) = cola l"
  "size_lista (snd (Nodo_nuevo l v)) = size_lista l"
  "libre (snd (Nodo_nuevo l v)) = Suc (libre l)"
  "session (snd (Nodo_nuevo l v)) = session l"
  "nodos (snd (Nodo_nuevo l v)) =
     (nodos l)(libre l := \<lparr>vuelo = v, anterior = None, siguiente = None\<rparr>)"
  by (simp_all add: Nodo_nuevo_def)

lemma memoria_eq:
  "memoria l = memoria l' \<longleftrightarrow>
     cabeza l = cabeza l' \<and> cola l = cola l' \<and> size_lista l = size_lista l' \<and>
     nodos l = nodos l' \<and> libre l = libre l'"
  by (auto simp: memoria_def)

lemma memoria_insertar_al_frente:
  "memoria l = memoria l' \<Longrightarrow>
   memoria (snd (insertar_al_frente l v)) = memoria (snd (insertar_al_frente l' v))"
  by (simp add: memoria_eq insertar_al_frente_def Nodo_nuevo_def set_anterior_def
      set_siguiente_def Let_def split: option.split)

lemma memoria_insertar_al_final:
  "memoria l = memoria l' \<Longrightarrow>
   memoria (snd (insertar_al_final l v)) = memoria (snd (insertar_al_final l' v))"
  by (simp add: memoria_eq insertar_al_final_def Nodo_nuevo_def set_anterior_def
      set_siguiente_def Let_def split: option.split)

lemma fst_insertar [simp]:
  "fst (insertar_al_frente l v) = v" "fst (insertar_al_final l v) = v"
  by (simp_all add: insertar_al_frente_def insertar_al_final_def Nodo_nuevo_def Let_def
      split: option.split)

lemma memoria_extraer_de_posicion:
  assumes "memoria l = memoria l'"
  shows "fst (extraer_de_posicion l pos) = fst (extraer_de_posicion l' pos) \<and>
         memoria (snd (extraer_de_posicion l pos)) = memoria (snd (extraer_de_posicion l' pos))"
proof -
  have campos: "cabeza l = cabeza l'" "cola l = cola l'" "size_lista l = size_lista l'"
    "nodos l = nodos l'" "libre l = libre l'"
    using assms by (simp_all add: memoria_eq)
  consider (fuera) "pos < 0 \<or> pos \<ge> size_lista l'"
    | (inicio) "\<not> (pos < 0 \<or> pos \<ge> size_lista l')" "pos = 0"
    | (final) "\<not> (pos < 0 \<or> pos \<ge> size_lista l')" "pos \<noteq> 0" "pos = size_lista l' - 1"
    | (medio) "\<not> (pos < 0 \<or> pos \<ge> size_lista l')" "pos \<noteq> 0" "pos \<noteq> size_lista l' - 1"
    by blast
  then show ?thesis
  proof cases
    case fuera
    then show ?thesis using assms by (simp add: extraer_de_posicion_def campos)
  next
    case inicio
    show ?thesis
    proof (cases "cabeza l'")
      case None
      with inicio assms show ?thesis by (simp add: extraer_de_posicion_def campos)
    next
      case (Some ex)
      show ?thesis
      proof (cases "siguiente (nodos l' ex)")
        case None
        with inicio Some show ?thesis
          by (simp add: extraer_de_posicion_def campos memoria_eq Let_def)
      next
        case (Some c)
        with inicio \<open>cabeza l' = Some ex\<close> show ?thesis
          by (simp add: extraer_de_posicion_def campos memoria_eq Let_def)
      qed
    qed
  next
    case final
    show ?thesis
    proof (cases "cola l'")
      case None
      with final assms show ?thesis by (simp add: extraer_de_posicion_def campos)
    next
      case (Some ex)
      show ?thesis
      proof (cases "anterior (nodos l' ex)")
        case None
        with final Some show ?thesis
          by (simp add: extraer_de_posicion_def campos memoria_eq Let_def)
      next
        case (Some c)
        with final \<open>cola l' = Some ex\<close> show ?thesis
          by (simp add: extraer_de_posicion_def campos memoria_eq Let_def)
      qed
    qed
  next
    case medio
    show ?thesis
    proof (cases "avanzar (nodos l') (nat pos) (cabeza l')")
      case (Inl e)
      with medio assms show ?thesis by (simp add: extraer_de_posicion_def campos)
    next
      case (Inr p)
      show ?thesis
      proof (cases p)
        case None
        with medio Inr assms show ?thesis by (simp add: extraer_de_posicion_def campos)
      next
        case (Some a)
        show ?thesis
        proof (cases "anterior (nodos l' a)")
          case None
          with medio Inr \<open>p = Some a\<close> assms show ?thesis
            by (simp add: extraer_de_posicion_def campos)
        next
          case b: (Some b)
          have sig: "siguiente (nodos (set_siguiente b (siguiente (nodos l' a)) x) a) =
              siguiente (nodos l' a)" if "nodos x = nodos l'" for x
            using that by simp
          show ?thesis
          proof (cases "siguiente (nodos l' a)")
            case None
            with medio Inr \<open>p = Some a\<close> b show ?thesis
              by (simp add: extraer_de_posicion_def campos memoria_eq Let_def sig
                  del: set_siguiente_campos)
                (simp add: campos)
          next
            case (Some c)
            with medio Inr \<open>p = Some a\<close> b show ?thesis
              by (simp add: extraer_de_posicion_def campos memoria_eq Let_def sig
                  del: set_siguiente_campos)
                (simp add: campos)
          qed
        qed
      qed
    qed
  qed
qed

lemma memoria_insertar_en_posicion:
  assumes "memoria l = memoria l'"
  shows "fst (insertar_en_posicion l v pos) = fst (insertar_en_posicion l' v pos) \<and>
         memoria (snd (insertar_en_posicion l v pos)) = memoria (snd (insertar_en_posicion l' v pos))"
proof -
  have campos: "cabeza l = cabeza l'" "cola l = cola l'" "size_lista l = size_lista l'"
    "nodos l = nodos l'" "libre l = libre l'"
    using assms by (simp_all add: memoria_eq)
  define h1 where "h1 = (nodos l')(libre l' := \<lparr>vuelo = v, anterior = None, siguiente = None\<rparr>)"
  consider (fuera) "pos < 0 \<or> pos > size_lista l'"
    | (frente) "\<not> (pos < 0 \<or> pos > size_lista l')" "pos = 0"
    | (final) "\<not> (pos < 0 \<or> pos > size_lista l')" "pos \<noteq> 0" "pos = size_lista l'"
    | (medio) "\<not> (pos < 0 \<or> pos > size_lista l')" "pos \<noteq> 0" "pos \<noteq> size_lista l'"
    by blast
  then show ?thesis
  proof cases
    case fuera
    then show ?thesis using assms by (simp add: insertar_en_posicion_def campos)
  next
    case frente
    then show ?thesis
      using memoria_insertar_al_frente [OF assms, of v]
      by (simp add: insertar_en_posicion_def campos split_def)
  next
    case final
    then show ?thesis
      using memoria_insertar_al_final [OF assms, of v]
      by (simp add: insertar_en_posicion_def campos split_def)
  next
    case medio
    show ?thesis
    proof (cases "avanzar h1 (nat pos) (cabeza l')")
      case (Inl e)
      with medio show ?thesis
        by (simp add: insertar_en_posicion_def campos split_def memoria_eq h1_def)
    next
      case (Inr p)
      show ?thesis
      proof (cases p)
        case None
        with medio Inr show ?thesis
          by (simp add: insertar_en_posicion_def campos split_def memoria_eq h1_def)
      next
        case (Some a)
        show ?thesis
        proof (cases "a = libre l'")
          case True
          with medio Inr \<open>p = Some a\<close> show ?thesis
            by (simp add: insertar_en_posicion_def campos split_def memoria_eq Let_def h1_def)
        next
          case False
          show ?thesis
          proof (cases "anterior (nodos l' a)")
            case None
            with medio Inr \<open>p = Some a\<close> False show ?thesis
              by (simp add: insertar_en_posicion_def campos split_def memoria_eq Let_def h1_def)
          next
            case (Some b)
            with medio Inr \<open>p = Some a\<close> False show ?thesis
              by (simp add: insertar_en_posicion_def campos split_def memoria_eq Let_def h1_def)
          qed
        qed
      qed
    qed
  qed
qed

lemma memoria_insertar_todos:
  "memoria l = memoria l' \<Longrightarrow>
   memoria (insertar_todos d ids l) = memoria (insertar_todos d ids l')"
proof (induction ids arbitrary: l l')
  case Nil
  then show ?case by simp
next
  case (Cons i ids)
  from Cons.IH [OF memoria_insertar_al_final [OF Cons.prems]] show ?case by simp
qed

lemma memoria_reordenar:
  assumes "memoria l = memoria l'"
  shows "map_option (\<lambda>(r, x). (r, memoria x)) (reordenar l ids) =
         map_option (\<lambda>(r, x). (r, memoria x)) (reordenar l' ids)"
proof -
  have campos: "cabeza l = cabeza l'" "cola l = cola l'" "size_lista l = size_lista l'"
    "nodos l = nodos l'" "libre l = libre l'"
    using assms by (simp_all add: memoria_eq)
  have vac: "memoria (l\<lparr>cabeza := None, cola := None, size_lista := 0\<rparr>) =
      memoria (l'\<lparr>cabeza := None, cola := None, size_lista := 0\<rparr>)"
    by (simp add: memoria_eq campos)
  have m2: "memoria (insertar_todos d ids (l\<lparr>cabeza := None, cola := None, size_lista := 0\<rparr>)) =
      memoria (insertar_todos d ids (l'\<lparr>cabeza := None, cola := None, size_lista := 0\<rparr>))" for d
    by (rule memoria_insertar_todos [OF vac])
  then have lt: "listar_todos (insertar_todos d ids (l\<lparr>cabeza := None, cola := None, size_lista := 0\<rparr>)) =
      listar_todos (insertar_todos d ids (l'\<lparr>cabeza := None, cola := None, size_lista := 0\<rparr>))" for d
    by (simp add: listar_todos_def memoria_eq)
  show ?thesis
    using assms m2
    by (simp add: reordenar_def campos lt Let_def split: option.split)
qed

section \<open>Commits that raise store nothing\<close>

lemma actualizar_bd_falla:
  "0 < fallos_seguidos s \<Longrightarrow>
   rows (snd (actualizar_bd s v a n)) = rows s \<and>
   fallos_seguidos (snd (actualizar_bd s v a n)) = fallos_seguidos s - 1"
  by (cases "fallos s") (auto simp: actualizar_bd_def fallos_seguidos_def split: if_splits)

lemma bd_falla:
  "0 < fallos_seguidos (session l) \<Longrightarrow> rows (session (bd v a n l)) = rows (session l)"
  "0 < fallos_seguidos (session l) \<Longrightarrow>
   fallos_seguidos (session (bd v a n l)) = fallos_seguidos (session l) - 1"
  using actualizar_bd_falla [of "session l" v a n] by (simp_all add: bd_def)

lemma filas_insertar_al_frente:
  "2 \<le> fallos_seguidos (session l) \<Longrightarrow>
   rows (session (snd (insertar_al_frente l v))) = rows (session l) \<and>
   fallos_seguidos (session l) - 2 \<le> fallos_seguidos (session (snd (insertar_al_frente l v)))"
  by (simp add: insertar_al_frente_def Let_def split_def bd_falla split: option.split, arith)

lemma filas_insertar_al_final:
  "2 \<le> fallos_seguidos (session l) \<Longrightarrow>
   rows (session (snd (insertar_al_final l v))) = rows (session l) \<and>
   fallos_seguidos (session l) - 2 \<le> fallos_seguidos (session (snd (insertar_al_final l v)))"
  by (simp add: insertar_al_final_def Let_def split_def bd_falla split: option.split, arith)

lemma filas_extraer_de_posicion:
  assumes f: "3 \<le> fallos_seguidos (session l)"
  shows "rows (session (snd (extraer_de_posicion l pos))) = rows (session l)"
proof -
  consider (fuera) "pos < 0 \<or> pos \<ge> size_lista l"
    | (inicio) "\<not> (pos < 0 \<or> pos \<ge> size_lista l)" "pos = 0"
    | (final) "\<not> (pos < 0 \<or> pos \<ge> size_lista l)" "pos \<noteq> 0" "pos = size_lista l - 1"
    | (medio) "\<not> (pos < 0 \<or> pos \<ge> size_lista l)" "pos \<noteq> 0" "pos \<noteq> size_lista l - 1"
    by blast
  then show ?thesis
  proof cases
    case fuera
    then show ?thesis by (simp add: extraer_de_posicion_def)
  next
    case inicio
    show ?thesis
    proof (cases "cabeza l")
      case None
      with inicio show ?thesis by (simp add: extraer_de_posicion_def)
    next
      case (Some ex)
      with inicio f show ?thesis
        by (cases "siguiente (nodos l ex)")
          (simp_all add: extraer_de_posicion_def Let_def bd_falla)
    qed
  next
    case final
    show ?thesis
    proof (cases "cola l")
      case None
      with final show ?thesis by (simp add: extraer_de_posicion_def)
    next
      case (Some ex)
      with final f show ?thesis
        by (cases "anterior (nodos l ex)")
          (simp_all add: extraer_de_posicion_def Let_def bd_falla)
    qed
  next
    case medio
    show ?thesis
    proof (cases "avanzar (nodos l) (nat pos) (cabeza l)")
      case (Inl e)
      with medio show ?thesis by (simp add: extraer_de_posicion_def)
    next
      case (Inr p)
      show ?thesis
      proof (cases p)
        case None
        with medio Inr show ?thesis by (simp add: extraer_de_posicion_def)
      next
        case (Some a)
        show ?thesis
        proof (cases "anterior (nodos l a)")
          case None
          with medio Inr \<open>p = Some a\<close> show ?thesis by (simp add: extraer_de_posicion_def)
        next
          case b: (Some b)
          from medio Inr \<open>p = Some a\<close> b f show ?thesis
            by (cases "siguiente (nodos l a)")
              (simp_all add: extraer_de_posicion_def Let_def bd_falla)
        qed
      qed
    qed
  qed
qed

lemma filas_insertar_en_posicion:
  assumes f: "3 \<le> fallos_seguidos (session l)"
  shows "rows (session (snd (insertar_en_posicion l v pos))) = rows (session l)"
proof -
  let ?h1 = "(nodos l)(libre l := \<lparr>vuelo = v, anterior = None, siguiente = None\<rparr>)"
  consider (fuera) "pos < 0 \<or> pos > size_lista l"
    | (frente) "\<not> (pos < 0 \<or> pos > size_lista l)" "pos = 0"
    | (final) "\<not> (pos < 0 \<or> pos > size_lista l)" "pos \<noteq> 0" "pos = size_lista l"
    | (medio) "\<not> (pos < 0 \<or> pos > size_lista l)" "pos \<noteq> 0" "pos \<noteq> size_lista l"
    by blast
  then show ?thesis
  proof cases
    case fuera
    then show ?thesis by (simp add: insertar_en_posicion_def)
  next
    case frente
    with f filas_insertar_al_frente [of l v] show ?thesis
      by (simp add: insertar_en_posicion_def split_def)
  next
    case final
    with f filas_insertar_al_final [of l v] show ?thesis
      by (simp add: insertar_en_posicion_def split_def)
  next
    case medio
    show ?thesis
    proof (cases "avanzar ?h1 (nat pos) (cabeza l)")
      case (Inl e)
      with medio show ?thesis by (simp add: insertar_en_posicion_def split_def)
    next
      case (Inr p)
      show ?thesis
      proof (cases p)
        case None
        with medio Inr show ?thesis by (simp add: insertar_en_posicion_def split_def)
      next
        case (Some a)
        show ?thesis
        proof (cases "a = libre l")
          case True
          with medio Inr \<open>p = Some a\<close> show ?thesis
            by (simp add: insertar_en_posicion_def split_def Let_def)
        next
          case False
          with medio Inr \<open>p = Some a\<close> f show ?thesis
            by (cases "anterior (nodos l a)")
              (simp_all add: insertar_en_posicion_def split_def Let_def bd_falla)
        qed
      qed
    qed
  qed
qed

lemma filas_insertar_todos:
  "2 * length ids \<le> fallos_seguidos (session l) \<Longrightarrow>
   rows (session (insertar_todos d ids l)) = rows (session l)"
proof (induction ids arbitrary: l)
  case Nil
  then show ?case by simp
next
  case (Cons i ids)
  from Cons.prems have "2 \<le> fallos_seguidos (session l)" by simp
  from filas_insertar_al_final [OF this, of "the (d i)"] Cons.prems
  have "rows (session (snd (insertar_al_final l (the (d i))))) = rows (session l)"
    and "2 * length ids \<le> fallos_seguidos (session (snd (insertar_al_final l (the (d i)))))"
    by auto
  with Cons.IH show ?case by simp
qed

lemma filas_reordenar:
  "2 * length ids \<le> fallos_seguidos (session l) \<Longrightarrow>
   map_option (\<lambda>(r, x). rows (session x)) (reordenar l ids) =
   map_option (\<lambda>_. rows (session l)) (reordenar l ids)"
  using filas_insertar_todos [of ids "l\<lparr>cabeza := None, cola := None, size_lista := 0\<rparr>"]
  by (simp add: reordenar_def Let_def split: option.split)

lemma con_fallos_campos:
  "rows (session (con_fallos fs l)) = rows (session l)"
  "fallos_seguidos (session (con_fallos (True # fs) l)) =
     Suc (fallos_seguidos (session (con_fallos fs l)))"
  "fallos_seguidos (session (con_fallos (replicate n True @ fs) l)) =
     n + fallos_seguidos (session (con_fallos fs l))"
  by (simp_all add: con_fallos_def fallos_seguidos_def takeWhile_append)

section \<open>Failing commits\<close>

text \<open>
  Claim C4, as stated, fails: a commit that raises inside \<^verbatim>\<open>_actualizar_bd\<close> is not
  surfaced. Flight 1 is queued; a request enqueues emergency flight 2 while the third
  commit (the write of flight 1's \<^verbatim>\<open>anterior_id\<close>) raises. The request returns flight 2
  normally, the queue in memory is 2, 1, and the stored \<^verbatim>\<open>anterior_id\<close> of flight 1 is
  still empty.
\<close>

theorem C4_fallo_silencioso:
  "fst (agregar_vuelo (con_fallos [False, False, True] lista_A) (emergencia ''B'')) = Inr 2 \<and>
   fallos (session (snd (agregar_vuelo (con_fallos [False, False, True] lista_A)
     (emergencia ''B'')))) = [] \<and>
   listar_todos (snd (agregar_vuelo (con_fallos [False, False, True] lista_A)
     (emergencia ''B''))) = Some [2, 1] \<and>
   enlaces (snd (agregar_vuelo (con_fallos [False, False, True] lista_A)
     (emergencia ''B''))) 2 = Some (None, Some 1) \<and>
   enlaces (snd (agregar_vuelo (con_fallos [False, False, True] lista_A)
     (emergencia ''B''))) 1 = Some (None, None)"
  by code_simp

text \<open>
  Claim C4, amended. A commit that raises is not surfaced: \<^verbatim>\<open>_actualizar_bd\<close> catches
  it, stores nothing and returns \<^verbatim>\<open>False\<close>, and no mutating operation looks at that
  result. Whatever the schedule of commit outcomes, each of \<^verbatim>\<open>insertar_al_frente\<close>,
  \<^verbatim>\<open>insertar_al_final\<close>, \<^verbatim>\<open>insertar_en_posicion\<close>, \<^verbatim>\<open>extraer_de_posicion\<close> and
  \<^verbatim>\<open>reordenar\<close> returns or raises exactly as it does when every commit succeeds, and
  leaves the same in-memory state; and when all the commits of the operation raise (two
  for an insertion at an end, three for an insertion or extraction at a position, two for
  each id of a reordering), the rows are exactly as before the call.
\<close>

theorem C4_fallo_no_propagado:
  "actualizar_bd (s\<lparr>fallos := True # fs\<rparr>) v a n = (False, s\<lparr>fallos := fs\<rparr>) \<and>
   fst (insertar_al_frente (con_fallos fs l) v) = fst (insertar_al_frente l v) \<and>
   memoria (snd (insertar_al_frente (con_fallos fs l) v)) = memoria (snd (insertar_al_frente l v)) \<and>
   fst (insertar_al_final (con_fallos fs l) v) = fst (insertar_al_final l v) \<and>
   memoria (snd (insertar_al_final (con_fallos fs l) v)) = memoria (snd (insertar_al_final l v)) \<and>
   fst (insertar_en_posicion (con_fallos fs l) v pos) = fst (insertar_en_posicion l v pos) \<and>
   memoria (snd (insertar_en_posicion (con_fallos fs l) v pos)) =
     memoria (snd (insertar_en_posicion l v pos)) \<and>
   fst (extraer_de_posicion (con_fallos fs l) pos) = fst (extraer_de_posicion l pos) \<and>
   memoria (snd (extraer_de_posicion (con_fallos fs l) pos)) =
     memoria (snd (extraer_de_posicion l pos)) \<and>
   map_option (\<lambda>(r, x). (r, memoria x)) (reordenar (con_fallos fs l) ids) =
     map_option (\<lambda>(r, x). (r, memoria x)) (reordenar l ids) \<and>
   rows (session (snd (insertar_al_frente (con_fallos (True # True # fs) l) v))) =
     rows (session l) \<and>
   rows (session (snd (insertar_al_final (con_fallos (True # True # fs) l) v))) =
     rows (session l) \<and>
   rows (session (snd (insertar_en_posicion (con_fallos (True # True # True # fs) l) v pos))) =
     rows (session l) \<and>
   rows (session (snd (extraer_de_posicion (con_fallos (True # True # True # fs) l) pos))) =
     rows (session l) \<and>
   map_option (\<lambda>(r, x). rows (session x))
       (reordenar (con_fallos (replicate (2 * length ids) True @ fs) l) ids) =
     map_option (\<lambda>_. rows (session l))
       (reordenar (con_fallos (replicate (2 * length ids) True @ fs) l) ids)"
proof -
  have m: "memoria (con_fallos fs l) = memoria l" for fs
    by (simp add: con_fallos_def memoria_def)
  have f2: "2 \<le> fallos_seguidos (session (con_fallos (True # True # fs) l))"
    and f3: "3 \<le> fallos_seguidos (session (con_fallos (True # True # True # fs) l))"
    and fn: "2 * length ids \<le>
      fallos_seguidos (session (con_fallos (replicate (2 * length ids) True @ fs) l))"
    by (simp_all add: con_fallos_campos)
  have mem: "fst (insertar_al_frente (con_fallos fs l) v) = fst (insertar_al_frente l v) \<and>
   memoria (snd (insertar_al_frente (con_fallos fs l) v)) = memoria (snd (insertar_al_frente l v)) \<and>
   fst (insertar_al_final (con_fallos fs l) v) = fst (insertar_al_final l v) \<and>
   memoria (snd (insertar_al_final (con_fallos fs l) v)) = memoria (snd (insertar_al_final l v)) \<and>
   fst (insertar_en_posicion (con_fallos fs l) v pos) = fst (insertar_en_posicion l v pos) \<and>
   memoria (snd (insertar_en_posicion (con_fallos fs l) v pos)) =
     memoria (snd (insertar_en_posicion l v pos)) \<and>
   fst (extraer_de_posicion (con_fallos fs l) pos) = fst (extraer_de_posicion l pos) \<and>
   memoria (snd (extraer_de_posicion (con_fallos fs l) pos)) =
     memoria (snd (extraer_de_posicion l pos)) \<and>
   map_option (\<lambda>(r, x). (r, memoria x)) (reordenar (con_fallos fs l) ids) =
     map_option (\<lambda>(r, x). (r, memoria x)) (reordenar l ids)"
    using memoria_insertar_al_frente [OF m, of fs v] memoria_insertar_al_final [OF m, of fs v]
      memoria_insertar_en_posicion [OF m, of fs v pos] memoria_extraer_de_posicion [OF m, of fs pos]
      memoria_reordenar [OF m, of fs ids]
    by simp
  have filas: "rows (session (snd (insertar_al_frente (con_fallos (True # True # fs) l) v))) =
     rows (session l) \<and>
   rows (session (snd (insertar_al_final (con_fallos (True # True # fs) l) v))) =
     rows (session l) \<and>
   rows (session (snd (insertar_en_posicion (con_fallos (True # True # True # fs) l) v pos))) =
     rows (session l) \<and>
   rows (session (snd (extraer_de_posicion (con_fallos (True # True # True # fs) l) pos))) =
     rows (session l) \<and>
   map_option (\<lambda>(r, x). rows (session x))
       (reordenar (con_fallos (replicate (2 * length ids) True @ fs) l) ids) =
     map_option (\<lambda>_. rows (session l))
       (reordenar (con_fallos (replicate (2 * length ids) True @ fs) l) ids)"
    using filas_insertar_al_frente [OF f2, of v] filas_insertar_al_final [OF f2, of v]
      filas_insertar_en_posicion [OF f3, of v pos] filas_extraer_de_posicion [OF f3, of pos]
      filas_reordenar [OF fn]
    by (simp add: con_fallos_campos(1))
  have "actualizar_bd (s\<lparr>fallos := True # fs\<rparr>) v a n = (False, s\<lparr>fallos := fs\<rparr>)"
    by (simp add: actualizar_bd_def)
  with mem filas show ?thesis by (intro conjI) (simp_all only:)
qed

section \<open>Create and enqueue\<close>

lemma bien_formada_insertar_al_frente:
  assumes "bien_formada l as"
  shows "bien_formada (snd (insertar_al_frente l v)) (libre l # as)"
    and "vuelos_de (snd (insertar_al_frente l v)) (libre l # as) = v # vuelos_de l as"
proof -
  let ?l' = "snd (insertar_al_frente l v)"
  from assms have fresh: "libre l \<notin> set as" and dist: "distinct as"
    by (auto simp: bien_formada_def list_all_iff)
  have "bien_formada ?l' (libre l # as) \<and> vuelos_de ?l' (libre l # as) = v # vuelos_de l as"
  proof (cases as)
    case Nil
    with assms show ?thesis
      by (simp add: bien_formada_def vuelos_de_def insertar_al_frente_def Let_def split_def)
  next
    case (Cons c cs)
    with assms have cab: "cabeza l = Some c" and cad: "cadena (nodos l) (Some c) (siguiente (nodos l c)) cs"
      by (simp_all add: bien_formada_def)
    from Cons fresh dist have nc: "c \<noteq> libre l" "c \<notin> set cs" "libre l \<notin> set cs" by auto
    have campos: "cabeza ?l' = Some (libre l)" "cola ?l' = cola l"
      "size_lista ?l' = size_lista l + 1" "libre ?l' = Suc (libre l)"
      "nodos ?l' = (nodos l)(libre l := \<lparr>vuelo = v, anterior = None, siguiente = Some c\<rparr>,
         c := (nodos l c)\<lparr>anterior := Some (libre l)\<rparr>)"
      using nc(1) by (simp_all add: insertar_al_frente_def Let_def split_def cab)
    have "cadena (nodos ?l') (Some c) (siguiente (nodos l c)) cs
        = cadena (nodos l) (Some c) (siguiente (nodos l c)) cs"
      using nc by (intro cadena_cong) (auto simp: campos)
    with cad nc have "cadena (nodos ?l') None (cabeza ?l') (libre l # as)"
      by (simp add: campos Cons)
    moreover have "vuelos_de ?l' (libre l # as) = v # vuelos_de l as"
      using nc by (auto simp: vuelos_de_def campos Cons)
    ultimately show ?thesis
      using assms fresh by (simp add: bien_formada_def campos Cons list_all_iff less_Suc_eq)
  qed
  then show "bien_formada ?l' (libre l # as)"
    and "vuelos_de ?l' (libre l # as) = v # vuelos_de l as" by simp_all
qed

lemma bien_formada_session [simp]:
  "bien_formada (l\<lparr>session := s\<rparr>) as = bien_formada l as"
  "vuelos_de (l\<lparr>session := s\<rparr>) as = vuelos_de l as"
  "libre (l\<lparr>session := s\<rparr>) = libre l"
  by (simp_all add: bien_formada_def vuelos_de_def)

text \<open>
  Claim C6. On a well-formed queue, a successful \<^verbatim>\<open>agregar_vuelo\<close> puts the new flight
  first when its state is \<^verbatim>\<open>EMERGENCIA\<close> and last otherwise; and from the empty queue,
  enqueueing A (scheduled), B (emergency), C (scheduled), which get the ids 1, 2, 3, gives
  the order B, A, C.
\<close>

theorem C6_agregar_vuelo:
  "(bien_formada l as \<longrightarrow> agregar_vuelo l d = (Inr v, l') \<longrightarrow>
      listar_todos l' =
        Some (if b_estado d = EMERGENCIA then v # vuelos_de l as else vuelos_de l as @ [v])) \<and>
   agregar_vuelo lista_vacia (programado ''A'') = (Inr 1, lista_A) \<and>
   fst (agregar_vuelo lista_A (emergencia ''B'')) = Inr 2 \<and>
   fst (agregar_vuelo (snd (agregar_vuelo lista_A (emergencia ''B''))) (programado ''C'')) = Inr 3 \<and>
   listar_todos (snd (agregar_vuelo (snd (agregar_vuelo lista_A (emergencia ''B'')))
     (programado ''C''))) = Some [2, 1, 3]"
proof (intro conjI impI)
  assume bf: "bien_formada l as" and ag: "agregar_vuelo l d = (Inr v, l')"
  from ag obtain s' where
    l': "l' = (if b_estado d = EMERGENCIA then snd (insertar_al_frente (l\<lparr>session := s'\<rparr>) v)
         else snd (insertar_al_final (l\<lparr>session := s'\<rparr>) v))"
    by (auto simp: agregar_vuelo_def split: prod.splits option.splits if_splits)
  have bf': "bien_formada (l\<lparr>session := s'\<rparr>) as" using bf by simp
  show "listar_todos l' =
      Some (if b_estado d = EMERGENCIA then v # vuelos_de l as else vuelos_de l as @ [v])"
    using listar_todos_bien_formada [OF bien_formada_insertar_al_frente(1) [OF bf', of v]]
      listar_todos_bien_formada [OF bien_formada_insertar_al_final(1) [OF bf', of v]]
      bien_formada_insertar_al_frente(2) [OF bf', of v]
      bien_formada_insertar_al_final(2) [OF bf', of v]
    by (simp add: l')
next
  show "agregar_vuelo lista_vacia (programado ''A'') = (Inr 1, lista_A)"
    by (simp add: lista_A_def agregar_vuelo_def crear_vuelo_def lista_vacia_def programado_def
        split: prod.splits)
qed code_simp+

theorem C6_agregar_vuelo_witness:
  "bien_formada lista_A [0] \<and>
   agregar_vuelo lista_A (emergencia ''B'') =
     (Inr 2, snd (agregar_vuelo lista_A (emergencia ''B''))) \<and>
   listar_todos (snd (agregar_vuelo lista_A (emergencia ''B''))) = Some [2, 1]"
proof -
  have a: "bien_formada lista_A [0]" by code_simp
  have "fst (agregar_vuelo lista_A (emergencia ''B'')) = Inr 2" by code_simp
  then have b: "agregar_vuelo lista_A (emergencia ''B'') =
      (Inr 2, snd (agregar_vuelo lista_A (emergencia ''B'')))"
    by (metis prod.collapse)
  have c: "b_estado (emergencia ''B'') = EMERGENCIA" by (simp add: emergencia_def)
  have d: "vuelos_de lista_A [0] = [1]" by code_simp
  from C6_agregar_vuelo [of lista_A "[0]" "emergencia ''B''" 2
      "snd (agregar_vuelo lista_A (emergencia ''B''))"] a b c d
  show ?thesis by simp
qed

section \<open>Every operation keeps the queue well-formed\<close>

text \<open>
  The constructor, when it returns, and each of \<^verbatim>\<open>insertar_al_frente\<close>,
  \<^verbatim>\<open>insertar_al_final\<close>, \<^verbatim>\<open>insertar_en_posicion\<close>, \<^verbatim>\<open>extraer_de_posicion\<close> and
  \<^verbatim>\<open>reordenar\<close> (lemma \<open>reordenar_ok\<close>) on a valid argument, leave a well-formed queue;
  in memory, extraction returns the flight at the position and removes its node, and
  insertion puts the new node at the position.
\<close>

lemma avanzar_cadena:
  "cadena h prev p as \<Longrightarrow> n \<le> length as \<Longrightarrow>
   avanzar h n p = Inr (if n < length as then Some (as ! n) else None)"
proof (induction as arbitrary: n prev p)
  case Nil
  then show ?case by simp
next
  case (Cons a as)
  show ?case
  proof (cases n)
    case 0
    with Cons.prems show ?thesis by simp
  next
    case (Suc m)
    with Cons.prems Cons.IH [of "Some a" "siguiente (h a)" m] show ?thesis by simp
  qed
qed

lemma cadena_vecinos:
  "cadena h prev p (xs @ a # ys) \<Longrightarrow>
   anterior (h a) = (if xs = [] then prev else Some (last xs)) \<and>
   siguiente (h a) = (if ys = [] then None else Some (hd ys))"
proof (induction xs arbitrary: prev p)
  case Nil
  then show ?case by (cases ys) simp_all
next
  case (Cons x xs)
  from Cons.prems have "cadena h (Some x) (siguiente (h x)) (xs @ a # ys)" by simp
  from Cons.IH [OF this] show ?case by simp
qed

lemma cadena_quitar_primero:
  "cadena h prev (Some a) (a # c # cs) \<Longrightarrow> c \<notin> set cs \<Longrightarrow>
   cadena (h(c := (h c)\<lparr>anterior := prev'\<rparr>)) prev' (Some c) (c # cs)"
  using cadena_cong [of cs "h(c := (h c)\<lparr>anterior := prev'\<rparr>)" h "Some c" "siguiente (h c)"]
  by simp

lemma cadena_quitar_ultimo:
  "cadena h prev p (xs @ [a]) \<Longrightarrow> xs \<noteq> [] \<Longrightarrow> distinct xs \<Longrightarrow>
   cadena (h(last xs := (h (last xs))\<lparr>siguiente := None\<rparr>)) prev p xs"
proof (induction xs arbitrary: prev p)
  case Nil
  then show ?case by simp
next
  case (Cons x xs)
  show ?case
  proof (cases "xs = []")
    case True
    with Cons.prems show ?thesis by simp
  next
    case False
    with Cons.prems have "x \<noteq> last xs" by auto
    with Cons.prems False Cons.IH [of "Some x" "siguiente (h x)"] show ?thesis by simp
  qed
qed

lemma cadena_quitar_medio:
  "cadena h prev p (xs @ a # c # cs) \<Longrightarrow> xs \<noteq> [] \<Longrightarrow> distinct (xs @ a # c # cs) \<Longrightarrow>
   cadena (h(last xs := (h (last xs))\<lparr>siguiente := Some c\<rparr>,
             c := (h c)\<lparr>anterior := Some (last xs)\<rparr>)) prev p (xs @ c # cs)"
proof (induction xs arbitrary: prev p)
  case Nil
  then show ?case by simp
next
  case (Cons x xs)
  let ?h' = "\<lambda>b. h(b := (h b)\<lparr>siguiente := Some c\<rparr>, c := (h c)\<lparr>anterior := Some b\<rparr>)"
  show ?case
  proof (cases "xs = []")
    case True
    from Cons.prems True have x: "p = Some x" "anterior (h x) = prev" "x \<noteq> c" "x \<notin> set cs"
      "c \<notin> set cs" and resto: "cadena h (Some c) (siguiente (h c)) cs"
      by auto
    have "cadena (?h' x) (Some c) (siguiente (h c)) cs = cadena h (Some c) (siguiente (h c)) cs"
      using x by (intro cadena_cong) auto
    with x resto True show ?thesis by (simp del: fun_upd_apply add: fun_upd_same fun_upd_other)
  next
    case False
    with Cons.prems have x: "p = Some x" "anterior (h x) = prev" "x \<noteq> last xs" "x \<noteq> c"
      and resto: "cadena h (Some x) (siguiente (h x)) (xs @ a # c # cs)"
      and d: "distinct (xs @ a # c # cs)"
      by auto
    from Cons.IH [OF resto False d] x False show ?thesis by simp
  qed
qed

lemma cadena_insertar_medio:
  "cadena h prev p (xs @ a # ys) \<Longrightarrow> xs \<noteq> [] \<Longrightarrow> distinct (xs @ a # ys) \<Longrightarrow>
   nn \<notin> set (xs @ a # ys) \<Longrightarrow>
   cadena (h(nn := \<lparr>vuelo = v, anterior = Some (last xs), siguiente = Some a\<rparr>,
             last xs := (h (last xs))\<lparr>siguiente := Some nn\<rparr>,
             a := (h a)\<lparr>anterior := Some nn\<rparr>)) prev p (xs @ nn # a # ys)"
proof (induction xs arbitrary: prev p)
  case Nil
  then show ?case by simp
next
  case (Cons x xs)
  let ?h' = "\<lambda>b. h(nn := \<lparr>vuelo = v, anterior = Some b, siguiente = Some a\<rparr>,
             b := (h b)\<lparr>siguiente := Some nn\<rparr>, a := (h a)\<lparr>anterior := Some nn\<rparr>)"
  show ?case
  proof (cases "xs = []")
    case True
    from Cons.prems True have x: "p = Some x" "anterior (h x) = prev" "x \<noteq> a" "x \<notin> set ys"
      "a \<notin> set ys" "nn \<noteq> x" "nn \<noteq> a" "nn \<notin> set ys"
      and resto: "cadena h (Some a) (siguiente (h a)) ys"
      by auto
    have "cadena (?h' x) (Some a) (siguiente (h a)) ys = cadena h (Some a) (siguiente (h a)) ys"
      using x by (intro cadena_cong) auto
    with x resto True show ?thesis by (simp del: fun_upd_apply add: fun_upd_same fun_upd_other)
  next
    case False
    with Cons.prems have x: "p = Some x" "anterior (h x) = prev" "x \<noteq> last xs" "x \<noteq> a"
      "nn \<noteq> x"
      and resto: "cadena h (Some x) (siguiente (h x)) (xs @ a # ys)"
      and d: "distinct (xs @ a # ys)" "nn \<notin> set (xs @ a # ys)"
      by auto
    from Cons.IH [OF resto False d] x False show ?thesis by simp
  qed
qed

lemma bien_formada_extraer_de_posicion:
  assumes bf: "bien_formada l as" and rango: "0 \<le> pos" "pos < size_lista l"
  shows "fst (extraer_de_posicion l pos) = Inr (vuelos_de l as ! nat pos) \<and>
         bien_formada (snd (extraer_de_posicion l pos))
           (take (nat pos) as @ drop (Suc (nat pos)) as) \<and>
         vuelos_de (snd (extraer_de_posicion l pos)) (take (nat pos) as @ drop (Suc (nat pos)) as)
           = take (nat pos) (vuelos_de l as) @ drop (Suc (nat pos)) (vuelos_de l as)"
proof -
  define n where "n = nat pos"
  define xs where "xs = take n as"
  define a where "a = as ! n"
  define ys where "ys = drop (Suc n) as"
  let ?l' = "snd (extraer_de_posicion l pos)"
  from bf have cad: "cadena (nodos l) None (cabeza l) as" and dist: "distinct as"
    and cola: "cola l = (if as = [] then None else Some (last as))"
    and tam: "size_lista l = int (length as)" and lib: "list_all (\<lambda>a. a < libre l) as"
    by (simp_all add: bien_formada_def)
  from rango tam have n: "n < length as" "pos = int n" by (simp_all add: n_def)
  then have as: "as = xs @ a # ys"
    by (simp add: xs_def a_def ys_def id_take_nth_drop)
  have lxs: "length xs = n" using n by (simp add: xs_def)
  have vs: "vuelos_de l as ! n = vuelo (nodos l a)"
    using n by (simp add: vuelos_de_def a_def)
  have vtd: "take n (vuelos_de l as) @ drop (Suc n) (vuelos_de l as) = vuelos_de l (xs @ ys)"
    by (simp add: vuelos_de_def xs_def ys_def take_map drop_map)
  have valido: "\<not> (pos < 0 \<or> pos \<ge> size_lista l)" using rango by simp
  have lib': "list_all (\<lambda>a. a < libre l) (xs @ ys)" using lib by (simp add: as)
  have "fst (extraer_de_posicion l pos) = Inr (vuelo (nodos l a)) \<and>
        bien_formada ?l' (xs @ ys) \<and> vuelos_de ?l' (xs @ ys) = vuelos_de l (xs @ ys)"
  proof (cases "xs = []")
    case True
    with lxs n have p0: "pos = 0" by simp
    from cad True have cab: "cabeza l = Some a" by (simp add: as)
    show ?thesis
    proof (cases ys)
      case Nil
      with cad True have "siguiente (nodos l a) = None" by (simp add: as)
      with True Nil cab p0 valido tam lib show ?thesis
        by (simp add: extraer_de_posicion_def Let_def bien_formada_def vuelos_de_def as)
    next
      case (Cons c cs)
      with cad True have sig: "siguiente (nodos l a) = Some c" by (simp add: as)
      from dist True Cons have nc: "c \<notin> set cs" "a \<noteq> c" by (simp_all add: as)
      have campos: "fst (extraer_de_posicion l pos) = Inr (vuelo (nodos l a))"
        "cabeza ?l' = Some c" "cola ?l' = cola l" "size_lista ?l' = size_lista l - 1"
        "libre ?l' = libre l" "nodos ?l' = (nodos l)(c := (nodos l c)\<lparr>anterior := None\<rparr>)"
        using p0 valido cab sig by (simp_all add: extraer_de_posicion_def Let_def)
      from cad True Cons have "cadena (nodos l) None (Some a) (a # c # cs)" by (simp add: as)
      from cadena_quitar_primero [OF this nc(1), of None]
      have "cadena (nodos ?l') None (cabeza ?l') (xs @ ys)"
        by (simp only: campos True Cons append_Nil)
      moreover have "vuelos_de ?l' (xs @ ys) = vuelos_de l (xs @ ys)"
        by (simp add: vuelos_de_def campos True Cons)
      ultimately show ?thesis
        using dist cola tam lib' True Cons
        by (simp add: bien_formada_def campos as)
    qed
  next
    case False
    with lxs n have pn0: "pos \<noteq> 0" by auto
    from cad have cab: "cabeza l = Some (hd xs)" using False by (cases xs) (simp_all add: as)
    from cadena_vecinos [of "nodos l" None "cabeza l" xs a ys] cad False
    have ant: "anterior (nodos l a) = Some (last xs)"
      and sig: "siguiente (nodos l a) = (if ys = [] then None else Some (hd ys))"
      by (simp_all add: as)
    from dist False have nb: "last xs \<noteq> a" by (auto simp: as)
    show ?thesis
    proof (cases ys)
      case Nil
      with n lxs tam have pf: "pos = size_lista l - 1" by (simp add: as)
      from cola Nil have col: "cola l = Some a" by (simp add: as)
      have campos: "fst (extraer_de_posicion l pos) = Inr (vuelo (nodos l a))"
        "cabeza ?l' = cabeza l" "cola ?l' = Some (last xs)" "size_lista ?l' = size_lista l - 1"
        "libre ?l' = libre l"
        "nodos ?l' = (nodos l)(last xs := (nodos l (last xs))\<lparr>siguiente := None\<rparr>)"
        using pn0 pf valido col ant by (simp_all add: extraer_de_posicion_def Let_def)
      from cad Nil have "cadena (nodos l) None (cabeza l) (xs @ [a])" by (simp add: as)
      from cadena_quitar_ultimo [OF this False] dist
      have "cadena (nodos ?l') None (cabeza ?l') (xs @ ys)"
        by (simp add: campos Nil as del: fun_upd_apply)
      moreover have "vuelos_de ?l' (xs @ ys) = vuelos_de l (xs @ ys)"
        by (simp add: vuelos_de_def campos Nil)
      ultimately show ?thesis
        using dist tam lib' False Nil
        by (simp add: bien_formada_def campos as)
    next
      case (Cons c cs)
      with n lxs tam have pnf: "pos \<noteq> size_lista l - 1" by (simp add: as)
      from sig Cons have sig: "siguiente (nodos l a) = Some c" by simp
      from dist False Cons have nc: "last xs \<noteq> c" "a \<noteq> c" by (auto simp: as)
      from avanzar_cadena [OF cad, of n] n
      have av: "avanzar (nodos l) (nat pos) (cabeza l) = Inr (Some a)"
        by (simp add: a_def)
      have campos: "fst (extraer_de_posicion l pos) = Inr (vuelo (nodos l a))"
        "cabeza ?l' = cabeza l" "cola ?l' = cola l" "size_lista ?l' = size_lista l - 1"
        "libre ?l' = libre l"
        "nodos ?l' = (nodos l)(last xs := (nodos l (last xs))\<lparr>siguiente := Some c\<rparr>,
           c := (nodos l c)\<lparr>anterior := Some (last xs)\<rparr>)"
        using pn0 pnf valido av ant sig nb nc
        by (simp_all add: extraer_de_posicion_def Let_def)
      from cad Cons have "cadena (nodos l) None (cabeza l) (xs @ a # c # cs)" by (simp add: as)
      from cadena_quitar_medio [OF this False] dist Cons
      have "cadena (nodos ?l') None (cabeza ?l') (xs @ ys)"
        by (simp add: campos as del: fun_upd_apply)
      moreover have "vuelos_de ?l' (xs @ ys) = vuelos_de l (xs @ ys)"
        by (simp add: vuelos_de_def campos Cons)
      ultimately show ?thesis
        using dist cola tam lib' False Cons
        by (simp add: bien_formada_def campos as)
    qed
  qed
  with vs vtd show ?thesis
    by (simp add: n_def [symmetric] xs_def [symmetric] ys_def [symmetric])
qed

lemma bien_formada_insertar_en_posicion:
  assumes bf: "bien_formada l as" and rango: "0 \<le> pos" "pos \<le> size_lista l"
  shows "fst (insertar_en_posicion l v pos) = Inr v \<and>
         bien_formada (snd (insertar_en_posicion l v pos))
           (take (nat pos) as @ libre l # drop (nat pos) as) \<and>
         vuelos_de (snd (insertar_en_posicion l v pos))
           (take (nat pos) as @ libre l # drop (nat pos) as)
           = take (nat pos) (vuelos_de l as) @ v # drop (nat pos) (vuelos_de l as)"
proof -
  define n where "n = nat pos"
  let ?l' = "snd (insertar_en_posicion l v pos)"
  let ?nn = "libre l"
  from bf have cad: "cadena (nodos l) None (cabeza l) as" and dist: "distinct as"
    and cola: "cola l = (if as = [] then None else Some (last as))"
    and tam: "size_lista l = int (length as)" and lib: "list_all (\<lambda>a. a < libre l) as"
    by (simp_all add: bien_formada_def)
  from lib have fresh: "?nn \<notin> set as" by (auto simp: list_all_iff)
  from rango tam have n: "n \<le> length as" "pos = int n" by (simp_all add: n_def)
  have valido: "\<not> (pos < 0 \<or> pos > size_lista l)" using rango by simp
  consider (frente) "n = 0" | (final) "n \<noteq> 0" "n = length as" | (medio) "0 < n" "n < length as"
    using n by linarith
  then have "fst (insertar_en_posicion l v pos) = Inr v \<and>
      bien_formada ?l' (take n as @ ?nn # drop n as) \<and>
      vuelos_de ?l' (take n as @ ?nn # drop n as) =
        take n (vuelos_de l as) @ v # drop n (vuelos_de l as)"
  proof cases
    case frente
    with n valido bien_formada_insertar_al_frente [OF bf, of v] show ?thesis
      by (simp add: insertar_en_posicion_def split_def)
  next
    case final
    with n valido tam bien_formada_insertar_al_final [OF bf, of v] show ?thesis
      by (simp add: insertar_en_posicion_def split_def vuelos_de_def)
  next
    case medio
    define xs where "xs = take n as"
    define a where "a = as ! n"
    define ys where "ys = drop (Suc n) as"
    from medio have as: "as = xs @ a # ys"
      by (simp add: xs_def a_def ys_def id_take_nth_drop)
    from medio have xs: "xs \<noteq> []" and dn: "drop n as = a # ys"
      by (auto simp: xs_def a_def ys_def Cons_nth_drop_Suc)
    let ?h1 = "(nodos l)(?nn := \<lparr>vuelo = v, anterior = None, siguiente = None\<rparr>)"
    have cad1: "cadena ?h1 None (cabeza l) as"
      using cad fresh cadena_cong [of as ?h1 "nodos l" None "cabeza l"] by simp
    from avanzar_cadena [OF cad1, of n] medio
    have av: "avanzar ?h1 (nat pos) (cabeza l) = Inr (Some a)"
      by (simp add: a_def n_def)
    from cadena_vecinos [of "nodos l" None "cabeza l" xs a ys] cad xs
    have ant: "anterior (nodos l a) = Some (last xs)" by (simp add: as)
    from xs have "last xs \<in> set xs" by simp
    with dist fresh have dif: "last xs \<noteq> a" "a \<noteq> ?nn" "last xs \<noteq> ?nn"
      by (auto simp: as)
    from medio n tam have pm: "pos \<noteq> 0" "pos \<noteq> size_lista l" by simp_all
    have campos: "fst (insertar_en_posicion l v pos) = Inr v"
      "cabeza ?l' = cabeza l" "cola ?l' = cola l" "size_lista ?l' = size_lista l + 1"
      "libre ?l' = Suc (libre l)"
      "nodos ?l' = (nodos l)(?nn := \<lparr>vuelo = v, anterior = Some (last xs), siguiente = Some a\<rparr>,
         last xs := (nodos l (last xs))\<lparr>siguiente := Some ?nn\<rparr>,
         a := (nodos l a)\<lparr>anterior := Some ?nn\<rparr>)"
      using valido pm av ant dif
      by (simp_all add: insertar_en_posicion_def Let_def split_def)
    from cad have "cadena (nodos l) None (cabeza l) (xs @ a # ys)" by (simp add: as)
    from cadena_insertar_medio [OF this xs, of ?nn v] dist fresh
    have c': "cadena (nodos ?l') None (cabeza ?l') (xs @ ?nn # a # ys)"
      by (simp add: campos as del: fun_upd_apply)
    have v': "vuelos_de ?l' (xs @ ?nn # a # ys) = vuelos_de l xs @ v # vuelos_de l (a # ys)"
      using dist fresh dif by (auto simp: vuelos_de_def campos as)
    have "bien_formada ?l' (xs @ ?nn # a # ys)"
      using c' dist fresh cola tam lib
      by (auto simp: bien_formada_def campos as list_all_iff less_Suc_eq)
    with v' campos(1) show ?thesis
      by (simp add: xs_def [symmetric] dn vuelos_de_def take_map drop_map)
  qed
  then show ?thesis by (simp add: n_def)
qed

lemma enlazar_cadena:
  assumes "cadena (nodos l) None (cabeza l) as" "as \<noteq> []" "distinct as"
    "size_lista l = int (length as)" "list_all (\<lambda>a. a < libre l) as"
  shows "fst (enlazar l (last as) sv) = libre l"
    and "cadena (nodos (snd (enlazar l (last as) sv))) None
           (cabeza (snd (enlazar l (last as) sv))) (as @ [libre l])"
    and "size_lista (snd (enlazar l (last as) sv)) = int (length (as @ [libre l]))"
    and "list_all (\<lambda>a. a < libre (snd (enlazar l (last as) sv))) (as @ [libre l])"
proof -
  let ?l' = "snd (enlazar l (last as) sv)"
  from assms have fresh: "libre l \<notin> set as" by (auto simp: list_all_iff)
  with assms(2) have nl: "last as \<noteq> libre l" using last_in_set by metis
  have campos: "fst (enlazar l (last as) sv) = libre l" "cabeza ?l' = cabeza l"
    "size_lista ?l' = size_lista l + 1" "libre ?l' = Suc (libre l)"
    "nodos ?l' = (nodos l)(libre l := \<lparr>vuelo = id_vuelo sv, anterior = Some (last as),
        siguiente = None\<rparr>, last as := (nodos l (last as))\<lparr>siguiente := Some (libre l)\<rparr>)"
    using nl by (simp_all add: enlazar_def Let_def split_def)
  show "fst (enlazar l (last as) sv) = libre l" by (rule campos)
  have "cadena (nodos ?l') None (cabeza l) (as @ [libre l])"
  proof (rule cadena_snoc [where h = "nodos l"])
    show "\<forall>a\<in>set (butlast as). nodos ?l' a = nodos l a"
      using assms(3) fresh by (auto simp: campos dest: in_set_butlastD butlast_distinto_last)
  qed (use assms fresh nl in \<open>simp_all add: campos\<close>)
  then show "cadena (nodos ?l') None (cabeza ?l') (as @ [libre l])" by (simp add: campos)
  show "size_lista ?l' = int (length (as @ [libre l]))" using assms(4) by (simp add: campos)
  show "list_all (\<lambda>a. a < libre ?l') (as @ [libre l])"
    using assms(5) by (auto simp: campos list_all_iff)
qed

lemma seguir_bien_formada:
  assumes "seguir d l n sig = Some y"
  shows "\<forall>as. cadena (nodos l) None (cabeza l) as \<and> as \<noteq> [] \<and> last as = n \<and> distinct as \<and>
           size_lista l = int (length as) \<and> list_all (\<lambda>a. a < libre l) as \<longrightarrow>
         (\<exists>as'. bien_formada y as')"
proof (rule seguir.raw_induct [where P = "\<lambda>d l n sig y.
    \<forall>as. cadena (nodos l) None (cabeza l) as \<and> as \<noteq> [] \<and> last as = n \<and> distinct as \<and>
      size_lista l = int (length as) \<and> list_all (\<lambda>a. a < libre l) as \<longrightarrow>
    (\<exists>as'. bien_formada y as')", OF _ assms], goal_cases)
  case (1 f d l n sig y)
  show ?case
  proof (intro allI impI, elim conjE)
    fix as
    assume inv: "cadena (nodos l) None (cabeza l) as" "as \<noteq> []" "distinct as"
      "size_lista l = int (length as)" "list_all (\<lambda>a. a < libre l) as"
      and n: "last as = n"
    show "\<exists>as'. bien_formada y as'"
    proof (cases "siguiente_valido d sig")
      case None
      with 1(2) have "y = l\<lparr>cola := Some n\<rparr>" by simp
      with inv n have "bien_formada y as" by (simp add: bien_formada_def)
      then show ?thesis ..
    next
      case (Some sv)
      with 1(2) have run: "f d (snd (enlazar l n sv)) (fst (enlazar l n sv)) (siguiente_id sv) = Some y"
        by simp
      note paso = enlazar_cadena [OF inv, of sv, unfolded n]
      from inv(5) have "libre l \<notin> set as" by (auto simp: list_all_iff)
      with inv(3) have "distinct (as @ [libre l])" by simp
      with 1(1) [OF run] paso show ?thesis
        by (auto simp del: cadena.simps)
    qed
  qed
qed

lemma ListaVuelos_init_bien_formada:
  assumes "ListaVuelos_init s = Some l"
  shows "\<exists>as. bien_formada l as"
proof (cases "rows s")
  case Nil
  with assms have "l = \<lparr>cabeza = None, cola = None, size_lista = 0, session = s,
      nodos = (\<lambda>_. nodo_vacio), libre = 0\<rparr>"
    by (simp add: ListaVuelos_init_def cargar_desde_bd_def)
  then have "bien_formada l []" by (simp add: bien_formada_def)
  then show ?thesis ..
next
  case (Cons v0 vs)
  define cab where "cab = (case find (\<lambda>v. anterior_id v = None) (rows s) of
      Some c \<Rightarrow> c | None \<Rightarrow> v0)"
  define l2 where "l2 = \<lparr>cabeza = Some 0, cola = None, size_lista = 1, session = s,
      nodos = (\<lambda>_. nodo_vacio)(0 := \<lparr>vuelo = id_vuelo cab, anterior = None, siguiente = None\<rparr>),
      libre = Suc 0\<rparr>"
  from assms Cons have run: "seguir (indice (rows s)) l2 0 (siguiente_id cab) = Some l"
    by (simp add: ListaVuelos_init_def cargar_desde_bd_def Let_def split_def cab_def l2_def
        Nodo_nuevo_def)
  have "cadena (nodos l2) None (cabeza l2) [0] \<and> [0::nat] \<noteq> [] \<and> last [0::nat] = 0 \<and>
      distinct [0::nat] \<and> size_lista l2 = int (length [0::nat]) \<and>
      list_all (\<lambda>a. a < libre l2) [0]"
    by (simp add: l2_def)
  with seguir_bien_formada [OF run] show ?thesis by blast
qed

section \<open>First and last flight\<close>

text \<open>
  Claim C7, as stated, fails: on the empty queue \<^verbatim>\<open>obtener_primero\<close> and
  \<^verbatim>\<open>obtener_ultimo\<close> return \<^verbatim>\<open>None\<close>; they do not raise \<^verbatim>\<open>OwnEmpty\<close>.
\<close>

theorem C7_vacia_devuelve_None:
  "size_lista lista_vacia = 0 \<and> obtener_primero lista_vacia = Inr None \<and>
   obtener_ultimo lista_vacia = Inr None \<and> obtener_primero lista_vacia \<noteq> Inl OwnEmpty \<and>
   obtener_ultimo lista_vacia \<noteq> Inl OwnEmpty"
  by code_simp

text \<open>
  Claim C7, amended. On a well-formed queue of size 0, \<^verbatim>\<open>obtener_primero\<close> and
  \<^verbatim>\<open>obtener_ultimo\<close> return \<^verbatim>\<open>None\<close> without raising; on one of size above 0 they return
  the first and the last flight of the chain. Both only read the state.
\<close>

theorem C7_obtener_sin_excepcion:
  assumes "bien_formada l as"
  shows "(size_lista l = 0 \<longrightarrow> obtener_primero l = Inr None \<and> obtener_ultimo l = Inr None) \<and>
         (size_lista l > 0 \<longrightarrow>
            obtener_primero l = Inr (Some (hd (vuelos_de l as))) \<and>
            obtener_ultimo l = Inr (Some (last (vuelos_de l as))))"
proof (cases as)
  case Nil
  with assms show ?thesis
    by (simp add: bien_formada_def obtener_primero_def obtener_ultimo_def)
next
  case (Cons a as')
  with assms show ?thesis
    by (simp add: bien_formada_def obtener_primero_def obtener_ultimo_def vuelos_de_def last_map)
qed

theorem C7_obtener_sin_excepcion_witness:
  "bien_formada lista_ABC [0, 1, 2] \<and> size_lista lista_ABC > 0 \<and>
   obtener_primero lista_ABC = Inr (Some 1) \<and> obtener_ultimo lista_ABC = Inr (Some 3) \<and>
   bien_formada lista_vacia [] \<and> size_lista lista_vacia = 0 \<and>
   obtener_primero lista_vacia = Inr None \<and> obtener_ultimo lista_vacia = Inr None"
proof -
  have a: "bien_formada lista_ABC [0, 1, 2]" by code_simp
  have b: "size_lista lista_ABC > 0" by code_simp
  have c: "vuelos_de lista_ABC [0, 1, 2] = [1, 2, 3]" by code_simp
  have d: "bien_formada lista_vacia []" by code_simp
  have e: "size_lista lista_vacia = 0" by code_simp
  from C7_obtener_sin_excepcion [OF a] C7_obtener_sin_excepcion [OF d] a b c d e
  show ?thesis by simp
qed

section \<open>Invalid arguments\<close>

text \<open>
  Claim C8. \<^verbatim>\<open>insertar_en_posicion\<close> with a position below 0 or above \<^verbatim>\<open>size\<close>,
  \<^verbatim>\<open>extraer_de_posicion\<close> with a position outside 0 .. \<^verbatim>\<open>size\<close> - 1, and \<^verbatim>\<open>reordenar\<close>
  with a number of ids other than \<^verbatim>\<open>size\<close> or (on a well-formed queue) with an id that is
  not in the queue, raise \<^verbatim>\<open>ValueError\<close> and leave the whole state, nodes and rows, as it
  was.
\<close>

theorem C8_argumento_invalido_sin_cambios:
  "(pos < 0 \<or> pos > size_lista l \<longrightarrow>
      insertar_en_posicion l v pos = (Inl (ValueError (Fuera_de_rango pos (size_lista l))), l)) \<and>
   (pos' < 0 \<or> pos' \<ge> size_lista l \<longrightarrow>
      extraer_de_posicion l pos' =
        (Inl (ValueError (Fuera_de_rango pos' (size_lista l - 1))), l)) \<and>
   (int (length ids) \<noteq> size_lista l \<longrightarrow>
      reordenar l ids = Some (Inl (ValueError Cantidad_no_coincide), l)) \<and>
   (bien_formada l as \<longrightarrow> int (length ids') = size_lista l \<longrightarrow>
    \<not> set ids' \<subseteq> set (vuelos_de l as) \<longrightarrow>
      reordenar l ids' = Some (Inl (ValueError Ids_no_existen), l))"
proof (intro conjI impI)
  assume bf: "bien_formada l as" and len: "int (length ids') = size_lista l"
    and no: "\<not> set ids' \<subseteq> set (vuelos_de l as)"
  define d where "d = fold (\<lambda>a m. m(vuelo (nodos l a) \<mapsto> vuelo (nodos l a))) as Map.empty"
  from bf have dic: "diccionario_desde (nodos l) (cabeza l) Map.empty = Some d"
    unfolding d_def bien_formada_def by (blast intro: diccionario_desde_cadena)
  from no obtain i where i: "i \<in> set ids'" "i \<notin> set (vuelos_de l as)"
    by blast
  then have "d i = None"
    by (simp add: d_def fold_diccionario vuelos_de_def)
  note i = i(1) this
  from i have "\<not> list_all (\<lambda>i. d i \<noteq> None) ids'"
    by (auto simp: list_all_iff)
  with len dic show "reordenar l ids' = Some (Inl (ValueError Ids_no_existen), l)"
    by (simp add: reordenar_def)
qed (simp_all add: insertar_en_posicion_def extraer_de_posicion_def reordenar_def)

theorem C8_argumento_invalido_sin_cambios_witness:
  "((4::int) < 0 \<or> 4 > size_lista lista_ABC) \<and>
   insertar_en_posicion lista_ABC 9 4 = (Inl (ValueError (Fuera_de_rango 4 3)), lista_ABC) \<and>
   ((3::int) < 0 \<or> 3 \<ge> size_lista lista_ABC) \<and>
   extraer_de_posicion lista_ABC 3 = (Inl (ValueError (Fuera_de_rango 3 2)), lista_ABC) \<and>
   int (length [1, 2 :: int]) \<noteq> size_lista lista_ABC \<and>
   reordenar lista_ABC [1, 2] = Some (Inl (ValueError Cantidad_no_coincide), lista_ABC) \<and>
   bien_formada lista_ABC [0, 1, 2] \<and> int (length [1, 2, 7 :: int]) = size_lista lista_ABC \<and>
   \<not> set [1, 2, 7] \<subseteq> set (vuelos_de lista_ABC [0, 1, 2]) \<and>
   reordenar lista_ABC [1, 2, 7] = Some (Inl (ValueError Ids_no_existen), lista_ABC)"
proof -
  have a: "size_lista lista_ABC = 3" by code_simp
  have b: "bien_formada lista_ABC [0, 1, 2]" by code_simp
  have c: "vuelos_de lista_ABC [0, 1, 2] = [1, 2, 3]" by code_simp
  from C8_argumento_invalido_sin_cambios [of 4 lista_ABC 9 3 "[1, 2]" "[0, 1, 2]" "[1, 2, 7]"]
    a b c
  show ?thesis by simp
qed

section \<open>Stored links after an extraction\<close>

text \<open>
  \<^verbatim>\<open>extraer_de_posicion\<close> passes \<^verbatim>\<open>None\<close> to \<^verbatim>\<open>_actualizar_bd\<close> to empty a link column,
  and \<^verbatim>\<open>_actualizar_bd\<close> skips every argument that is \<^verbatim>\<open>None\<close>: no stored link is ever
  emptied. The three theorems below run the code where that shows.
\<close>

text \<open>
  Claim C1 at the queue of flights 1, 2 (enqueued in that order on an empty table):
  \<^verbatim>\<open>extraer_de_posicion(0)\<close> returns flight 1 and leaves the queue 2 in memory, while a
  fresh \<^verbatim>\<open>ListaVuelos\<close> on the resulting table lists 1, 2.
\<close>

theorem C1_reconstruccion_difiere:
  "fst (extraer_de_posicion lista_AB 0) = Inr 1 \<and>
   listar_todos (snd (extraer_de_posicion lista_AB 0)) = Some [2] \<and>
   map_option listar_todos (ListaVuelos_init (session (snd (extraer_de_posicion lista_AB 0))))
     = Some (Some [1, 2])"
  by code_simp

text \<open>
  Claim C2 at the same input: after \<^verbatim>\<open>extraer_de_posicion(0)\<close> the head node wraps
  flight 2 and has no \<^verbatim>\<open>anterior\<close>, while the stored \<^verbatim>\<open>anterior_id\<close> of flight 2 is
  still 1.
\<close>

theorem C2_enlace_de_cabeza_no_borrado:
  "listar_todos (snd (extraer_de_posicion lista_AB 0)) = Some [2] \<and>
   obtener_primero (snd (extraer_de_posicion lista_AB 0)) = Inr (Some 2) \<and>
   map_option (\<lambda>c. anterior (nodos (snd (extraer_de_posicion lista_AB 0)) c))
     (cabeza (snd (extraer_de_posicion lista_AB 0))) = Some None \<and>
   enlaces (snd (extraer_de_posicion lista_AB 0)) 2 = Some (Some 1, None)"
  by code_simp

text \<open>
  Claim C3 at the queue of flights 1, 2, 3: \<^verbatim>\<open>extraer_de_posicion(1)\<close> returns flight 2,
  leaves 1, 3 in memory and stores the neighbours' new links, while the stored links of
  the extracted flight 2 are still 1 and 3.
\<close>

theorem C3_enlaces_del_extraido_no_borrados:
  "enlaces lista_ABC 2 = Some (Some 1, Some 3) \<and>
   fst (extraer_de_posicion lista_ABC 1) = Inr 2 \<and>
   listar_todos (snd (extraer_de_posicion lista_ABC 1)) = Some [1, 3] \<and>
   enlaces (snd (extraer_de_posicion lista_ABC 1)) 1 = Some (None, Some 3) \<and>
   enlaces (snd (extraer_de_posicion lista_ABC 1)) 3 = Some (Some 1, None) \<and>
   enlaces (snd (extraer_de_posicion lista_ABC 1)) 2 = Some (Some 1, Some 3)"
  by code_simp

section \<open>Reconstruction on cyclic links\<close>

lemma reordenar_AB_sesion: "map_option (\<lambda>(r, l'). (r, session l')) (reordenar lista_AB [2, 1]) =
   Some (Inr [2, 1], \<lparr>rows = filas_ciclo, fallos = []\<rparr>)"
  by code_simp

lemma sv_ciclo:
  "sig = Some 1 \<or> sig = Some 2 \<Longrightarrow>
   \<exists>sv. siguiente_valido (indice filas_ciclo) sig = Some sv \<and>
     (siguiente_id sv = Some 1 \<or> siguiente_id sv = Some 2)"
  by (auto simp: siguiente_valido_def indice_def filas_ciclo_def)

lemma seguir_ciclo_aux:
  assumes "seguir d l n sig = Some y"
  shows "d = indice filas_ciclo \<longrightarrow> (sig = Some 1 \<or> sig = Some 2) \<longrightarrow> False"
proof (rule seguir.raw_induct [where P = "\<lambda>d l n sig y.
    d = indice filas_ciclo \<longrightarrow> (sig = Some 1 \<or> sig = Some 2) \<longrightarrow> False", OF _ assms],
    goal_cases)
  case (1 f d l n sig y)
  show ?case
  proof (intro impI)
    assume d: "d = indice filas_ciclo" and s: "sig = Some 1 \<or> sig = Some 2"
    from sv_ciclo [OF s] d obtain sv where
      sv: "siguiente_valido d sig = Some sv" "siguiente_id sv = Some 1 \<or> siguiente_id sv = Some 2"
      by blast
    with 1(2) have "f d (snd (enlazar l n sv)) (fst (enlazar l n sv)) (siguiente_id sv) = Some y"
      by simp
    from 1(1) [OF this] d sv(2) show False by blast
  qed
qed

lemma seguir_ciclo:
  "sig = Some 1 \<or> sig = Some 2 \<Longrightarrow> seguir (indice filas_ciclo) l n sig = None"
  using seguir_ciclo_aux [of "indice filas_ciclo" l n sig]
  by (cases "seguir (indice filas_ciclo) l n sig") auto

lemma init_ciclo: "ListaVuelos_init \<lparr>rows = filas_ciclo, fallos = []\<rparr> = None"
  by (simp add: ListaVuelos_init_def cargar_desde_bd_def Let_def Nodo_nuevo_def seguir_ciclo split_def)
    (simp add: filas_ciclo_def seguir_ciclo [unfolded filas_ciclo_def])

text \<open>
  Claim C9 at the table that \<^verbatim>\<open>reordenar([2, 1])\<close> leaves behind on the queue of flights
  1, 2: both rows have a predecessor and point at each other, and the walk of
  \<^verbatim>\<open>_cargar_desde_bd\<close> from the first scanned row never reaches a \<^verbatim>\<open>siguiente_id\<close> that
  is empty or unknown: the constructor does not return.
\<close>

theorem C9_reconstruccion_no_termina:
  "map_option (\<lambda>(r, l'). (r, session l')) (reordenar lista_AB [2, 1]) =
     Some (Inr [2, 1], \<lparr>rows = filas_ciclo, fallos = []\<rparr>) \<and>
   ListaVuelos_init \<lparr>rows = filas_ciclo, fallos = []\<rparr> = None"
  using reordenar_AB_sesion init_ciclo by simp

end
